theory Spec2Isabelle
  imports Main "HOL-Library.AList"
begin

section \<open>Values, errors and factories\<close>

text \<open>
  A JavaScript value as far as the injector can tell values apart: \<open>undefined\<close>, an
  object known by its address (reference equality is equality of addresses), or a
  primitive number.
\<close>

datatype val = Undefined | Obj nat | Num int

text \<open>
  \<open>Error msg\<close> is \<open>new Error(msg)\<close>; \<open>TypeError\<close> is what the runtime raises on a
  property read of \<open>undefined\<close>.
\<close>

datatype error = Error string | TypeError string

text \<open>
  The first argument of a factory: a caller's context object (by address) or the
  validator's \<open>createDynamicContext()\<close> proxy.
\<close>

datatype ctxv = Context nat | DynamicContext

text \<open>
  What a factory does, seen from the injector: it returns a value, throws, allocates a new
  object (\<open>new T(...)\<close>, continuing with the fresh address), or calls
  \<open>serviceGetter.getService(key)\<close> and continues with the result. \<open>getService\<close> is
  all the \<open>ServiceGetter\<close> interface gives a factory, and all a factory reaches the
  injector by here.
\<close>

datatype prog =
    Return val
  | Throw error
  | NewObj "nat \<Rightarrow> prog"
  | GetService string "val \<Rightarrow> prog"

text \<open>\<open>scope-type.ts\<close>: the numeric enum and its reverse mapping \<open>ScopeType[n]\<close>.\<close>

datatype ScopeType = OnDemand | SingleInstance | Transient

fun ordinal :: "ScopeType \<Rightarrow> nat" where
  "ordinal OnDemand = 1"
| "ordinal SingleInstance = 2"
| "ordinal Transient = 3"

fun ScopeType_name :: "ScopeType \<Rightarrow> string" where
  "ScopeType_name OnDemand = ''OnDemand''"
| "ScopeType_name SingleInstance = ''SingleInstance''"
| "ScopeType_name Transient = ''Transient''"

text \<open>
  \<open>builder.ts\<close>: a \<open>FunctionConfig\<close> is a function object, \<open>fref\<close> its address (what
  \<open>===\<close> compares) and \<open>body\<close> its behaviour. A \<open>ServiceConfiguration\<close> is an object,
  \<open>dref\<close> its address. The disposer \<open>onScopeEnd(instance, context)\<close> returns normally
  (\<open>None\<close>) or throws; it is a callback of the caller, and what else it does is not
  looked at.
\<close>

datatype FunctionConfig = FunctionConfig (fref: nat) (body: "ctxv \<Rightarrow> prog")

type_synonym disposer = "val \<Rightarrow> nat \<Rightarrow> error option"

record ServiceConfiguration =
  dref :: nat
  scope :: ScopeType
  factory :: FunctionConfig
  onScopeEnd :: disposer

text \<open>A \<open>Map\<close> keeps its entries in insertion order; \<open>set\<close> on a present key keeps its place.\<close>

definition Map_set :: "('k \<times> 'v) list \<Rightarrow> 'k \<Rightarrow> 'v \<Rightarrow> ('k \<times> 'v) list" where
  "Map_set m k v = AList.update k v m"

type_synonym Registry = "(string \<times> ServiceConfiguration) list"

section \<open>The injector (\<open>injector.ts\<close>)\<close>

text \<open>
  \<open>ServiceHandle\<close>: field \<open>inst\<close> is the source's \<open>instance\<close>, \<open>h_onScopeEnd\<close> its
  \<open>onScopeEnd\<close>. The key of a handle map is a string or \<open>undefined\<close> (\<open>None\<close>), which is
  what \<open>keys[0]\<close> of an empty array is.
\<close>

record ServiceHandle =
  inst :: val
  h_onScopeEnd :: disposer

type_synonym ServiceMap = "(string option \<times> ServiceHandle) list"

record DependencyData =
  scopedServices :: ServiceMap
  onDemandServices :: "ServiceHandle list"

text \<open>
  The heap the injectors work on. \<open>dependencyInjectionContext w c\<close> is the symbol-keyed
  own field of the context object at address \<open>c\<close> (\<open>None\<close>: it has none), and
  \<open>prototypeChain w c\<close> lists the objects on the prototype chain of that context
  object, nearest first. \<open>maps w a\<close> is the content of the \<open>Map\<close> object at address
  \<open>a\<close>, \<open>nextMap\<close> and \<open>nextObj\<close> the next free addresses. \<open>factoryCalls\<close> and
  \<open>disposeCalls\<close> record every call of a factory (its address and context argument) and
  of a disposer (the handle and the context).
\<close>

record world =
  prototypeChain :: "nat \<Rightarrow> nat list"
  dependencyInjectionContext :: "nat \<Rightarrow> DependencyData option"
  maps :: "nat \<Rightarrow> ServiceMap"
  nextMap :: nat
  nextObj :: nat
  factoryCalls :: "(nat \<times> ctxv) list"
  disposeCalls :: "(ServiceHandle \<times> nat) list"

text \<open>
  An \<open>Injector\<close> object; all four fields are \<open>readonly\<close>. \<open>i_scope\<close> is the source's
  \<open>scope\<close> (the address of the context object), \<open>singleInstanceServices\<close> the address of
  its \<open>Map\<close>.
\<close>

record Injector =
  isMainScope :: bool
  i_scope :: nat
  registry :: Registry
  singleInstanceServices :: nat

type_synonym 'a outcome = "((error + 'a) \<times> world) option"

definition createDependencyData :: DependencyData where
  "createDependencyData = \<lparr>scopedServices = [], onDemandServices = []\<rparr>"

text \<open>
  The read \<open>scope[dependencyInjectionContextSymbol]\<close> of a context object: the field of
  the first object that has it as its own, among the context object and then its
  prototype chain. The result is the object that holds the field, and the data object in
  it; \<open>None\<close> is \<open>undefined\<close>. An assignment to \<open>scope[dependencyInjectionContextSymbol]\<close>
  sets the own field of the context object itself.
\<close>

fun lookupSymbol :: "(nat \<Rightarrow> DependencyData option) \<Rightarrow> nat list \<Rightarrow> (nat \<times> DependencyData) option" where
  "lookupSymbol own [] = None"
| "lookupSymbol own (c # chain) =
     (case own c of Some d \<Rightarrow> Some (c, d) | None \<Rightarrow> lookupSymbol own chain)"

definition readSymbol :: "world \<Rightarrow> nat \<Rightarrow> (nat \<times> DependencyData) option" where
  "readSymbol w c = lookupSymbol (dependencyInjectionContext w) (c # prototypeChain w c)"

text \<open>The constructor, with all four arguments given.\<close>

definition new_Injector :: "nat \<Rightarrow> Registry \<Rightarrow> nat \<Rightarrow> bool \<Rightarrow> world \<Rightarrow> Injector \<times> world" where
  "new_Injector scope' registry' singleInstanceServices' isMainScope' w =
     (\<lparr>isMainScope = isMainScope', i_scope = scope', registry = registry',
       singleInstanceServices = singleInstanceServices'\<rparr>,
      (case readSymbol w scope' of
         None \<Rightarrow> w\<lparr>dependencyInjectionContext :=
                     (dependencyInjectionContext w)(scope' \<mapsto> createDependencyData)\<rparr>
       | Some _ \<Rightarrow> w))"

text \<open>\<open>new Map(m)\<close>: a new \<open>Map\<close> object with the entries \<open>m\<close>.\<close>

definition new_Map :: "ServiceMap \<Rightarrow> world \<Rightarrow> nat \<times> world" where
  "new_Map m w = (nextMap w, w\<lparr>maps := (maps w)(nextMap w := m), nextMap := Suc (nextMap w)\<rparr>)"

text \<open>\<open>new Injector(scope, registry)\<close>: the two defaults are a new empty map and \<open>true\<close>.\<close>

definition new_root_Injector :: "nat \<Rightarrow> Registry \<Rightarrow> world \<Rightarrow> Injector \<times> world" where
  "new_root_Injector scope' registry' w =
     (case new_Map [] w of (a, w') \<Rightarrow> new_Injector scope' registry' a True w')"

definition createScope :: "Injector \<Rightarrow> nat \<Rightarrow> world \<Rightarrow> Injector \<times> world" where
  "createScope this newScope w =
     (case new_Map (maps w (singleInstanceServices this)) w of
        (a, w') \<Rightarrow> new_Injector newScope (registry this) a False w')"

text \<open>
  The \<open>services\<close> argument of \<open>getOrCreate\<close> is a reference to a \<open>Map\<close> object: the
  injector's own \<open>singleInstanceServices\<close>, or the \<open>scopedServices\<close> of the data object
  that a context object holds in its own field (\<open>ScopedServices c\<close>, with \<open>c\<close> the holder
  that the read of the symbol has found). It is read and written through the heap, so
  that what the factory stored while it ran is seen by the \<open>set\<close> that follows.
\<close>

datatype servicesRef = SingleInstanceServices nat | ScopedServices nat

definition readServices :: "servicesRef \<Rightarrow> world \<Rightarrow> ServiceMap" where
  "readServices r w =
     (case r of
        SingleInstanceServices a \<Rightarrow> maps w a
      | ScopedServices c \<Rightarrow>
          (case dependencyInjectionContext w c of None \<Rightarrow> [] | Some d \<Rightarrow> scopedServices d))"

definition writeServices :: "servicesRef \<Rightarrow> ServiceMap \<Rightarrow> world \<Rightarrow> world" where
  "writeServices r m w =
     (case r of
        SingleInstanceServices a \<Rightarrow> w\<lparr>maps := (maps w)(a := m)\<rparr>
      | ScopedServices c \<Rightarrow>
          (case dependencyInjectionContext w c of
             None \<Rightarrow> w
           | Some d \<Rightarrow> w\<lparr>dependencyInjectionContext :=
                          (dependencyInjectionContext w)(c \<mapsto> d\<lparr>scopedServices := m\<rparr>)\<rparr>))"

text \<open>The \<open>for\<close> loop of \<open>getOrCreate\<close>: the first of \<open>keys\<close> that the map holds.\<close>

fun findService :: "string list \<Rightarrow> ServiceMap \<Rightarrow> ServiceHandle option" where
  "findService [] services = None"
| "findService (currKey # keys) services =
     (case map_of services (Some currKey) of
        Some service \<Rightarrow> Some service
      | None \<Rightarrow> findService keys services)"

definition first :: "string list \<Rightarrow> string option" where
  "first keys = (case keys of [] \<Rightarrow> None | k # _ \<Rightarrow> Some k)"

definition getOrCreate ::
  "string list \<Rightarrow> (world \<Rightarrow> ServiceHandle outcome) \<Rightarrow> servicesRef \<Rightarrow> world \<Rightarrow> ServiceHandle outcome"
where
  "getOrCreate keys createInstance services w =
     (case findService keys (readServices services w) of
        Some service \<Rightarrow> Some (Inr service, w)
      | None \<Rightarrow>
          (case createInstance w of
             None \<Rightarrow> None
           | Some (Inl e, w') \<Rightarrow> Some (Inl e, w')
           | Some (Inr service, w') \<Rightarrow>
               Some (Inr service,
                 writeServices services (Map_set (readServices services w') (first keys) service) w')))"

text \<open>The keys of the registry whose value is the very object \<open>currRegistration\<close>.\<close>

definition serviceKeys :: "Registry \<Rightarrow> ServiceConfiguration \<Rightarrow> string list" where
  "serviceKeys registry' currRegistration =
     map fst (filter (\<lambda>(_, value). dref value = dref currRegistration) registry')"

definition unregistered :: "string \<Rightarrow> error" where
  "unregistered key = Error (''There'' @ [CHR 0x27] @ ''s no type registered to the key '' @ key @ ''.'')"

text \<open>
  \<open>getService\<close>, the factory it runs and the \<open>getService\<close> calls of that factory. A
  circular registration recurses without end, so the functions take fuel: \<open>None\<close> is a
  call that has not returned within it. An exception leaves the heap as it was when
  thrown.
\<close>

fun run :: "nat \<Rightarrow> Injector \<Rightarrow> prog \<Rightarrow> world \<Rightarrow> val outcome"
  and createInstance :: "nat \<Rightarrow> Injector \<Rightarrow> ServiceConfiguration \<Rightarrow> world \<Rightarrow> ServiceHandle outcome"
  and getService :: "nat \<Rightarrow> Injector \<Rightarrow> string \<Rightarrow> world \<Rightarrow> val outcome"
where
  "run 0 this p w = None"
| "run (Suc n) this (Return v) w = Some (Inr v, w)"
| "run (Suc n) this (Throw e) w = Some (Inl e, w)"
| "run (Suc n) this (NewObj f) w = run n this (f (nextObj w)) (w\<lparr>nextObj := Suc (nextObj w)\<rparr>)"
| "run (Suc n) this (GetService key f) w =
     (case getService n this key w of
        None \<Rightarrow> None
      | Some (Inl e, w') \<Rightarrow> Some (Inl e, w')
      | Some (Inr v, w') \<Rightarrow> run n this (f v) w')"
| "createInstance 0 this currRegistration w = None"
| "createInstance (Suc n) this currRegistration w =
     (case run n this (body (factory currRegistration) (Context (i_scope this)))
             (w\<lparr>factoryCalls := factoryCalls w @
                   [(fref (factory currRegistration), Context (i_scope this))]\<rparr>) of
        None \<Rightarrow> None
      | Some (Inl e, w') \<Rightarrow> Some (Inl e, w')
      | Some (Inr v, w') \<Rightarrow>
          Some (Inr \<lparr>inst = v, h_onScopeEnd = onScopeEnd currRegistration\<rparr>, w'))"
| "getService 0 this key w = None"
| "getService (Suc n) this key w =
     (case map_of (registry this) key of
        None \<Rightarrow> Some (Inl (unregistered key), w)
      | Some currRegistration \<Rightarrow>
          (let keys = serviceKeys (registry this) currRegistration in
           case scope currRegistration of
             SingleInstance \<Rightarrow>
               (case getOrCreate keys (\<lambda>w'. createInstance n this currRegistration w')
                       (SingleInstanceServices (singleInstanceServices this)) w of
                  None \<Rightarrow> None
                | Some (Inl e, w') \<Rightarrow> Some (Inl e, w')
                | Some (Inr service, w') \<Rightarrow> Some (Inr (inst service), w'))
           | Transient \<Rightarrow>
               (case readSymbol w (i_scope this) of
                  None \<Rightarrow> Some (Inl (TypeError ''scopedServices''), w)
                | Some (holder, _) \<Rightarrow>
                    (case getOrCreate keys (\<lambda>w'. createInstance n this currRegistration w')
                            (ScopedServices holder) w of
                       None \<Rightarrow> None
                     | Some (Inl e, w') \<Rightarrow> Some (Inl e, w')
                     | Some (Inr service, w') \<Rightarrow> Some (Inr (inst service), w')))
           | OnDemand \<Rightarrow>
               (case createInstance n this currRegistration w of
                  None \<Rightarrow> None
                | Some (Inl e, w') \<Rightarrow> Some (Inl e, w')
                | Some (Inr onDemandService, w') \<Rightarrow>
                    (case readSymbol w' (i_scope this) of
                       None \<Rightarrow> Some (Inl (TypeError ''onDemandServices''), w')
                     | Some (holder, d) \<Rightarrow>
                         Some (Inr (inst onDemandService),
                           w'\<lparr>dependencyInjectionContext :=
                                (dependencyInjectionContext w')(holder \<mapsto>
                                  d\<lparr>onDemandServices := onDemandServices d @ [onDemandService]\<rparr>)\<rparr>)))))"

text \<open>
  \<open>endScope\<close>: the loop over \<open>servicesToDispose\<close> stops at the first disposer that
  throws, and the reset is not reached then. The reset assigns to the symbol of the
  injector's own context object.
\<close>

fun disposeAll :: "ServiceHandle list \<Rightarrow> nat \<Rightarrow> world \<Rightarrow> (error + unit) \<times> world" where
  "disposeAll [] context w = (Inr (), w)"
| "disposeAll (h # hs) context w =
     (let w' = w\<lparr>disposeCalls := disposeCalls w @ [(h, context)]\<rparr> in
      case h_onScopeEnd h (inst h) context of
        Some e \<Rightarrow> (Inl e, w')
      | None \<Rightarrow> disposeAll hs context w')"

definition servicesToDispose :: "Injector \<Rightarrow> DependencyData \<Rightarrow> world \<Rightarrow> ServiceHandle list" where
  "servicesToDispose this d w =
     (onDemandServices d @ map snd (scopedServices d)) @
     (if isMainScope this then map snd (maps w (singleInstanceServices this)) else [])"

definition endScope :: "Injector \<Rightarrow> world \<Rightarrow> (error + unit) \<times> world" where
  "endScope this w =
     (case readSymbol w (i_scope this) of
        None \<Rightarrow> (Inl (TypeError ''onDemandServices''), w)
      | Some (holder, d) \<Rightarrow>
          (case disposeAll (servicesToDispose this d w) (i_scope this) w of
             (Inl e, w') \<Rightarrow> (Inl e, w')
           | (Inr _, w') \<Rightarrow>
               (Inr (),
                w'\<lparr>dependencyInjectionContext :=
                     (dependencyInjectionContext w')(i_scope this \<mapsto> createDependencyData)\<rparr>)))"

section \<open>The builder (\<open>builder.ts\<close>)\<close>

text \<open>
  A \<open>Builder\<close> holds a registry and nothing else, so it is modelled by its registry;
  \<open>build\<close> copies it. \<open>add\<close> allocates one \<open>ServiceConfiguration\<close> object, at the
  address \<open>a\<close>, and stores it under every key. \<open>addType\<close> allocates the factory closure
  too, at \<open>fa\<close>: it resolves the dependencies in order, then constructs the object
  (\<open>new DependentType(...services)\<close>, with a constructor that builds the object and does
  nothing else). The default arguments (\<open>OnDemand\<close>, the empty disposer \<open>noop\<close>) are
  passed by the caller.
\<close>

datatype keyOrKeys = Key string | Keys "string list"

definition add ::
  "nat \<Rightarrow> keyOrKeys \<Rightarrow> FunctionConfig \<Rightarrow> ScopeType \<Rightarrow> disposer \<Rightarrow> Registry \<Rightarrow> Registry"
where
  "add a key functionConfig scope' onScopeEnd' registry' =
     (let keys = (case key of Keys ks \<Rightarrow> ks | Key k \<Rightarrow> [k]);
          serviceConfiguration =
            \<lparr>dref = a, scope = scope', factory = functionConfig, onScopeEnd = onScopeEnd'\<rparr>
      in fold (\<lambda>currKey r. Map_set r currKey serviceConfiguration) keys registry')"

fun construct :: "string list \<Rightarrow> prog" where
  "construct [] = NewObj (\<lambda>a. Return (Obj a))"
| "construct (t # dependencies) = GetService t (\<lambda>_. construct dependencies)"

definition addType ::
  "nat \<Rightarrow> nat \<Rightarrow> keyOrKeys \<Rightarrow> string list \<Rightarrow> ScopeType \<Rightarrow> disposer \<Rightarrow> Registry \<Rightarrow> Registry"
where
  "addType a fa key dependencies scope' onScopeEnd' registry' =
     add a key (FunctionConfig fa (\<lambda>_. construct dependencies)) scope' onScopeEnd' registry'"

definition noop :: disposer where
  "noop = (\<lambda>_ _. None)"

section \<open>The validator (\<open>validate-registry.ts\<close>)\<close>

text \<open>
  The state of one \<open>validateEntry\<close> pass: the two locals \<open>trackedErrors\<close> and
  \<open>visitedServices\<close>, the next free object address, and the factories called so far
  (by address).
\<close>

record vstate =
  trackedErrors :: "string list"
  visitedServices :: "string set"
  v_nextObj :: nat
  mockCalls :: "nat list"

definition missing_line :: "string \<Rightarrow> string \<Rightarrow> string" where
  "missing_line key dependencyKey =
     ''Root Service with key '' @ key @ '' depends on a service keyed '' @ dependencyKey @
     '' which does not exist.''"

definition circular_line :: "string \<Rightarrow> string \<Rightarrow> string" where
  "circular_line key dependencyKey =
     ''Root Service with key '' @ key @ '' has a circular dependency with '' @ dependencyKey @ ''.''"

definition scope_line :: "string \<Rightarrow> ScopeType \<Rightarrow> string \<Rightarrow> ScopeType \<Rightarrow> string" where
  "scope_line key parentScope dependencyKey childScope =
     ''Root Service with key '' @ key @ '' has a scope of '' @ ScopeType_name parentScope @
     '' which is less embracing than '' @ dependencyKey @ '' scope of '' @
     ScopeType_name childScope @ ''.''"

definition allEquivalentServices :: "Registry \<Rightarrow> ServiceConfiguration \<Rightarrow> string list" where
  "allEquivalentServices registry' serviceRegistry =
     map fst (filter (\<lambda>(_, t). fref (factory t) = fref (factory serviceRegistry)) registry')"

text \<open>
  \<open>mockRegistry.getService\<close> and the factories it runs on the mock context. It returns
  \<open>undefined\<close> on every path.
\<close>

fun vrun ::
    "nat \<Rightarrow> string \<Rightarrow> ScopeType \<Rightarrow> Registry \<Rightarrow> prog \<Rightarrow> vstate \<Rightarrow> ((error + val) \<times> vstate) option"
  and mock_getService ::
    "nat \<Rightarrow> string \<Rightarrow> ScopeType \<Rightarrow> Registry \<Rightarrow> string \<Rightarrow> vstate \<Rightarrow> ((error + val) \<times> vstate) option"
where
  "vrun 0 key parentScope registry' p st = None"
| "vrun (Suc n) key parentScope registry' (Return v) st = Some (Inr v, st)"
| "vrun (Suc n) key parentScope registry' (Throw e) st = Some (Inl e, st)"
| "vrun (Suc n) key parentScope registry' (NewObj f) st =
     vrun n key parentScope registry' (f (v_nextObj st)) (st\<lparr>v_nextObj := Suc (v_nextObj st)\<rparr>)"
| "vrun (Suc n) key parentScope registry' (GetService dependencyKey f) st =
     (case mock_getService n key parentScope registry' dependencyKey st of
        None \<Rightarrow> None
      | Some (Inl e, st') \<Rightarrow> Some (Inl e, st')
      | Some (Inr v, st') \<Rightarrow> vrun n key parentScope registry' (f v) st')"
| "mock_getService 0 key parentScope registry' dependencyKey st = None"
| "mock_getService (Suc n) key parentScope registry' dependencyKey st =
     (case map_of registry' dependencyKey of
        None \<Rightarrow>
          Some (Inr Undefined,
            st\<lparr>trackedErrors := trackedErrors st @ [missing_line key dependencyKey]\<rparr>)
      | Some serviceRegistry \<Rightarrow>
          if dependencyKey \<in> visitedServices st then
            Some (Inr Undefined,
              st\<lparr>trackedErrors := trackedErrors st @ [circular_line key dependencyKey]\<rparr>)
          else if ordinal parentScope < ordinal (scope serviceRegistry) then
            Some (Inr Undefined,
              st\<lparr>trackedErrors := trackedErrors st @
                   [scope_line key parentScope dependencyKey (scope serviceRegistry)]\<rparr>)
          else
            (case vrun n key parentScope registry' (body (factory serviceRegistry) DynamicContext)
                    (st\<lparr>visitedServices :=
                          fold insert (allEquivalentServices registry' serviceRegistry)
                            (visitedServices st),
                        mockCalls := mockCalls st @ [fref (factory serviceRegistry)]\<rparr>) of
               None \<Rightarrow> None
             | Some (Inl e, st') \<Rightarrow> Some (Inl e, st')
             | Some (Inr _, st') \<Rightarrow> Some (Inr Undefined, st')))"

definition validateEntry ::
  "nat \<Rightarrow> string \<times> ServiceConfiguration \<Rightarrow> Registry \<Rightarrow> ((error + string list) \<times> vstate) option"
where
  "validateEntry n t registry' =
     (case t of (key, value) \<Rightarrow>
        (case vrun n key (scope value) registry' (body (factory value) DynamicContext)
                \<lparr>trackedErrors = [], visitedServices = {}, v_nextObj = 0,
                 mockCalls = [fref (factory value)]\<rparr> of
           None \<Rightarrow> None
         | Some (Inl e, st) \<Rightarrow> Some (Inl e, st)
         | Some (Inr _, st) \<Rightarrow> Some (Inr (trackedErrors st), st)))"

text \<open>The \<open>reduce\<close> of \<open>validateRegistry\<close>, over the entries in insertion order.\<close>

fun validateEntries ::
  "nat \<Rightarrow> (string \<times> ServiceConfiguration) list \<Rightarrow> Registry \<Rightarrow> string list \<Rightarrow> (error + string list) option"
where
  "validateEntries n [] registry' aggregatedErrors = Some (Inr aggregatedErrors)"
| "validateEntries n (t # ts) registry' aggregatedErrors =
     (case validateEntry n t registry' of
        None \<Rightarrow> None
      | Some (Inl e, _) \<Rightarrow> Some (Inl e)
      | Some (Inr errors, _) \<Rightarrow> validateEntries n ts registry' (aggregatedErrors @ errors))"

definition validateRegistry :: "nat \<Rightarrow> Registry \<Rightarrow> (error + string list) option" where
  "validateRegistry n registry' = validateEntries n registry' registry' []"

section \<open>Definitions for the proofs\<close>

text \<open>
  The unfolding equations of \<open>createInstance\<close> and \<open>getService\<close> are applied by name.
\<close>

declare createInstance.simps(2) [simp del] getService.simps(2) [simp del]

text \<open>The object that holds the symbol field a context object reads, if any.\<close>

definition symbolHolder :: "world \<Rightarrow> nat \<Rightarrow> nat option" where
  "symbolHolder w c = map_option fst (readSymbol w c)"

text \<open>
  What a call of \<open>getService\<close> on the injector \<open>this\<close> may do to the heap: allocate
  objects, call factories, and write to the data object its context reads and to its own
  map of single instances. It changes no prototype chain, gives no object the symbol
  field and takes it from none, touches no data but that of the holder and no other map,
  allocates no map and calls no disposer.
\<close>

definition evolves :: "Injector \<Rightarrow> world \<Rightarrow> world \<Rightarrow> bool" where
  "evolves this w w' \<longleftrightarrow>
     nextObj w \<le> nextObj w' \<and> nextMap w' = nextMap w \<and> disposeCalls w' = disposeCalls w \<and>
     (\<exists>calls. factoryCalls w' = factoryCalls w @ calls) \<and>
     prototypeChain w' = prototypeChain w \<and>
     (\<forall>c. dependencyInjectionContext w' c = None \<longleftrightarrow> dependencyInjectionContext w c = None) \<and>
     (\<forall>c. symbolHolder w (i_scope this) \<noteq> Some c \<longrightarrow>
        dependencyInjectionContext w' c = dependencyInjectionContext w c) \<and>
     (\<forall>a. a \<noteq> singleInstanceServices this \<longrightarrow> maps w' a = maps w a)"

text \<open>
  A value that exists in a heap: if it is an object, its address has been allocated.
\<close>

definition allocated :: "world \<Rightarrow> val \<Rightarrow> bool" where
  "allocated w v = (case v of Obj a \<Rightarrow> a < nextObj w | _ \<Rightarrow> True)"

text \<open>
  A heap with nothing allocated, where no context object has the symbol field and every
  prototype chain is empty of context objects.
\<close>

definition emptyWorld :: world where
  "emptyWorld = \<lparr>prototypeChain = (\<lambda>_. []), dependencyInjectionContext = (\<lambda>_. None),
     maps = (\<lambda>_. []), nextMap = 0, nextObj = 0, factoryCalls = [], disposeCalls = []\<rparr>"

text \<open>A registry whose only factory throws.\<close>

definition throwingRegistry :: Registry where
  "throwingRegistry =
     add 0 (Key ''T'') (FunctionConfig 0 (\<lambda>_. Throw (Error ''boom''))) OnDemand noop []"

text \<open>A registry with one single-instance service, built by \<open>addType\<close> with no dependency.\<close>

definition singletonRegistry :: Registry where
  "singletonRegistry = addType 0 0 (Key ''S'') [] SingleInstance noop []"

text \<open>
  The heap a call of \<open>getService\<close> leaves and the value it returns, for stating what a
  sequence of calls does on concrete input.
\<close>

definition heapAfter :: "nat \<Rightarrow> Injector \<Rightarrow> string \<Rightarrow> world \<Rightarrow> world" where
  "heapAfter n this key w = (case getService n this key w of Some (_, w') \<Rightarrow> w' | None \<Rightarrow> w)"

definition valueOf :: "nat \<Rightarrow> Injector \<Rightarrow> string \<Rightarrow> world \<Rightarrow> val" where
  "valueOf n this key w =
     (case getService n this key w of Some (Inr v, _) \<Rightarrow> v | _ \<Rightarrow> Undefined)"

text \<open>A root injector on context 0 over the registry with the single-instance service.\<close>

definition singletonRoot :: Injector where
  "singletonRoot = fst (new_root_Injector 0 singletonRegistry emptyWorld)"

definition singletonWorld :: world where
  "singletonWorld = snd (new_root_Injector 0 singletonRegistry emptyWorld)"

text \<open>
  A registry with an on-demand, a single-instance and a transient service, and a root
  injector on context 0 over it.
\<close>

definition mixedRegistry :: Registry where
  "mixedRegistry =
     addType 2 2 (Key ''T'') [] Transient noop
       (addType 1 1 (Key ''S'') [] SingleInstance noop
         (addType 0 0 (Key ''O'') [] OnDemand noop []))"

definition mixedRoot :: Injector where
  "mixedRoot = fst (new_root_Injector 0 mixedRegistry emptyWorld)"

definition mixedWorld :: world where
  "mixedWorld = snd (new_root_Injector 0 mixedRegistry emptyWorld)"

text \<open>The heap after \<open>O\<close>, \<open>T\<close>, \<open>S\<close> and \<open>O\<close> again have been resolved on that root.\<close>

definition mixedResolved :: world where
  "mixedResolved =
     heapAfter (Suc (Suc (Suc (Suc 0)))) mixedRoot ''O''
       (heapAfter (Suc (Suc (Suc (Suc 0)))) mixedRoot ''S''
         (heapAfter (Suc (Suc (Suc (Suc 0)))) mixedRoot ''T''
           (heapAfter (Suc (Suc (Suc (Suc 0)))) mixedRoot ''O'' mixedWorld)))"

text \<open>
  A factory that constructs its product: on every path it ends by allocating an object
  and returning it, as the factory of \<open>addType\<close> does.
\<close>

inductive constructs :: "prog \<Rightarrow> bool" where
  new: "(\<And>a. f a = Return (Obj a)) \<Longrightarrow> constructs (NewObj f)"
| get: "(\<And>v. constructs (f v)) \<Longrightarrow> constructs (GetService key f)"
| alloc: "(\<And>a. constructs (f a)) \<Longrightarrow> constructs (NewObj f)"

text \<open>A registry with one transient service, and a root injector on context 0 over it.\<close>

definition transientRegistry :: Registry where
  "transientRegistry = addType 0 0 (Key ''T'') [] Transient noop []"

definition transientRoot :: Injector where
  "transientRoot = fst (new_root_Injector 0 transientRegistry emptyWorld)"

definition transientWorld :: world where
  "transientWorld = snd (new_root_Injector 0 transientRegistry emptyWorld)"

text \<open>
  A transient service whose factory returns the number 7 at every call, and a root
  injector on context 0 over it.
\<close>

definition constantRegistry :: Registry where
  "constantRegistry = add 0 (Key ''K'') (FunctionConfig 0 (\<lambda>_. Return (Num 7))) Transient noop []"

definition constantRoot :: Injector where
  "constantRoot = fst (new_root_Injector 0 constantRegistry emptyWorld)"

definition constantWorld :: world where
  "constantWorld = snd (new_root_Injector 0 constantRegistry emptyWorld)"

text \<open>
  The heap of the transient root, with one more context object, at address 1, made by
  \<open>Object.create\<close> of the root's context object: its prototype chain holds the context
  object 0, and it has no field of its own.
\<close>

definition inheritingWorld :: world where
  "inheritingWorld = transientWorld\<lparr>prototypeChain := (\<lambda>c. if c = 1 then [0] else [])\<rparr>"







section \<open>Lemmas on the injector\<close>

lemma lookupSymbol_own: "lookupSymbol own chain = Some (h, d) \<Longrightarrow> own h = Some d"
  by (induction chain) (auto split: option.splits)

lemma lookupSymbol_holder:
  "(\<forall>c. own' c = None \<longleftrightarrow> own c = None) \<Longrightarrow>
   map_option fst (lookupSymbol own' chain) = map_option fst (lookupSymbol own chain)"
proof (induction chain)
  case Nil
  show ?case by simp
next
  case (Cons c chain)
  show ?case
  proof (cases "own c")
    case None
    with Cons.prems have "own' c = None" by simp
    with None Cons.IH [OF Cons.prems] show ?thesis by simp
  next
    case (Some d)
    with Cons.prems obtain d' where "own' c = Some d'" by (cases "own' c") auto
    with Some show ?thesis by simp
  qed
qed

lemma lookupSymbol_update:
  "lookupSymbol own chain = Some (h, d) \<Longrightarrow> lookupSymbol (own(h \<mapsto> d')) chain = Some (h, d')"
  by (induction chain) (auto split: option.splits)

lemma readSymbol_own: "readSymbol w c = Some (h, d) \<Longrightarrow> dependencyInjectionContext w h = Some d"
  unfolding readSymbol_def by (rule lookupSymbol_own)

lemma readSymbol_own_field:
  "dependencyInjectionContext w c = Some d \<Longrightarrow> readSymbol w c = Some (c, d)"
  by (simp add: readSymbol_def)

lemma readSymbol_update:
  "readSymbol w c = Some (h, d) \<Longrightarrow>
   readSymbol (w\<lparr>dependencyInjectionContext := (dependencyInjectionContext w)(h \<mapsto> d')\<rparr>) c =
     Some (h, d')"
  unfolding readSymbol_def
  by (simp del: lookupSymbol.simps add: lookupSymbol_update)

lemma holder_Some: "symbolHolder w c = Some h \<longleftrightarrow> (\<exists>d. readSymbol w c = Some (h, d))"
  by (auto simp: symbolHolder_def)

lemma holder_preserved:
  assumes "prototypeChain w' = prototypeChain w"
    and "\<forall>c. dependencyInjectionContext w' c = None \<longleftrightarrow> dependencyInjectionContext w c = None"
  shows "symbolHolder w' c = symbolHolder w c"
  unfolding symbolHolder_def readSymbol_def assms(1)
  by (rule lookupSymbol_holder [OF assms(2)])

lemma evolves_refl: "evolves this w w"
  by (simp add: evolves_def)

lemma evolves_holder: "evolves this w w' \<Longrightarrow> symbolHolder w' c = symbolHolder w c"
  unfolding evolves_def by (intro holder_preserved) simp_all

lemma evolves_readSymbol:
  assumes "evolves this w w'" and "readSymbol w c = Some (h, d)"
  shows "\<exists>d'. readSymbol w' c = Some (h, d')"
proof -
  from assms(2) have "symbolHolder w c = Some h" by (auto simp: holder_Some)
  with evolves_holder [OF assms(1)] have "symbolHolder w' c = Some h" by simp
  then show ?thesis by (simp add: holder_Some)
qed

lemma evolves_trans:
  assumes "evolves this w w'" and "evolves this w' w''"
  shows "evolves this w w''"
proof -
  from assms obtain c1 c2 where "factoryCalls w' = factoryCalls w @ c1"
    and "factoryCalls w'' = factoryCalls w' @ c2"
    unfolding evolves_def by blast
  then have "factoryCalls w'' = factoryCalls w @ (c1 @ c2)" by simp
  then have calls: "\<exists>calls. factoryCalls w'' = factoryCalls w @ calls" ..
  have h: "symbolHolder w' (i_scope this) = symbolHolder w (i_scope this)"
    by (rule evolves_holder [OF assms(1)])
  from assms h have data: "\<forall>c. symbolHolder w (i_scope this) \<noteq> Some c \<longrightarrow>
      dependencyInjectionContext w'' c = dependencyInjectionContext w c"
    unfolding evolves_def by simp
  from assms calls data show ?thesis unfolding evolves_def by simp
qed

lemma evolves_alloc: "evolves this w (w\<lparr>nextObj := Suc (nextObj w)\<rparr>)"
  by (simp add: evolves_def)

lemma evolves_call: "evolves this w (w\<lparr>factoryCalls := factoryCalls w @ [c]\<rparr>)"
  by (simp add: evolves_def)

lemma evolves_write_single:
  "evolves this w (writeServices (SingleInstanceServices (singleInstanceServices this)) m w)"
  by (simp add: evolves_def writeServices_def)

lemma evolves_push:
  assumes "readSymbol w (i_scope this) = Some (h, d)"
  shows "evolves this w
     (w\<lparr>dependencyInjectionContext := (dependencyInjectionContext w)(h \<mapsto> d')\<rparr>)"
proof -
  from assms have "dependencyInjectionContext w h = Some d" by (rule readSymbol_own)
  moreover from assms have "symbolHolder w (i_scope this) = Some h" by (auto simp: holder_Some)
  ultimately show ?thesis by (simp add: evolves_def)
qed

lemma evolves_write_scoped:
  assumes "readSymbol w (i_scope this) = Some (h, d)"
  shows "evolves this w (writeServices (ScopedServices h) m w)"
proof -
  from assms have "dependencyInjectionContext w h = Some d" by (rule readSymbol_own)
  then have "writeServices (ScopedServices h) m w =
      w\<lparr>dependencyInjectionContext := (dependencyInjectionContext w)(h \<mapsto> d\<lparr>scopedServices := m\<rparr>)\<rparr>"
    by (simp add: writeServices_def)
  with evolves_push [OF assms] show ?thesis by simp
qed

lemma getService_unregistered_eq:
  "map_of (registry this) key = None \<Longrightarrow>
   getService (Suc n) this key w = Some (Inl (unregistered key), w)"
  by (simp add: getService.simps)

lemma getService_OnDemand:
  "map_of (registry this) key = Some cur \<Longrightarrow> scope cur = OnDemand \<Longrightarrow>
   getService (Suc n) this key w =
     (case createInstance n this cur w of
        None \<Rightarrow> None
      | Some (Inl e, w') \<Rightarrow> Some (Inl e, w')
      | Some (Inr onDemandService, w') \<Rightarrow>
          (case readSymbol w' (i_scope this) of
             None \<Rightarrow> Some (Inl (TypeError ''onDemandServices''), w')
           | Some (holder, d) \<Rightarrow>
               Some (Inr (inst onDemandService),
                 w'\<lparr>dependencyInjectionContext :=
                      (dependencyInjectionContext w')(holder \<mapsto>
                        d\<lparr>onDemandServices := onDemandServices d @ [onDemandService]\<rparr>)\<rparr>)))"
  by (simp add: getService.simps Let_def)

lemma getService_SingleInstance:
  "map_of (registry this) key = Some cur \<Longrightarrow> scope cur = SingleInstance \<Longrightarrow>
   getService (Suc n) this key w =
     (case getOrCreate (serviceKeys (registry this) cur) (\<lambda>w'. createInstance n this cur w')
             (SingleInstanceServices (singleInstanceServices this)) w of
        None \<Rightarrow> None
      | Some (Inl e, w') \<Rightarrow> Some (Inl e, w')
      | Some (Inr service, w') \<Rightarrow> Some (Inr (inst service), w'))"
  by (simp add: getService.simps Let_def)

lemma getService_Transient:
  "map_of (registry this) key = Some cur \<Longrightarrow> scope cur = Transient \<Longrightarrow>
   readSymbol w (i_scope this) = Some (h, d) \<Longrightarrow>
   getService (Suc n) this key w =
     (case getOrCreate (serviceKeys (registry this) cur) (\<lambda>w'. createInstance n this cur w')
             (ScopedServices h) w of
        None \<Rightarrow> None
      | Some (Inl e, w') \<Rightarrow> Some (Inl e, w')
      | Some (Inr service, w') \<Rightarrow> Some (Inr (inst service), w'))"
  by (simp add: getService.simps Let_def)

lemma getService_Transient_unbound:
  "map_of (registry this) key = Some cur \<Longrightarrow> scope cur = Transient \<Longrightarrow>
   readSymbol w (i_scope this) = None \<Longrightarrow>
   getService (Suc n) this key w = Some (Inl (TypeError ''scopedServices''), w)"
  by (simp add: getService.simps Let_def)

lemma getOrCreate_evolves:
  assumes "\<And>w rh w'. create w = Some (rh, w') \<Longrightarrow> evolves this w w'"
    and "services = SingleInstanceServices (singleInstanceServices this) \<or>
         (\<exists>d. readSymbol w (i_scope this) = Some (h, d)) \<and> services = ScopedServices h"
    and "getOrCreate keys create services w = Some (r, w')"
  shows "evolves this w w'"
proof (cases "findService keys (readServices services w)")
  case (Some h)
  with assms(3) show ?thesis by (simp add: getOrCreate_def evolves_refl)
next
  case None
  show ?thesis
  proof (cases "create w")
    case none: None
    with None assms(3) show ?thesis by (simp add: getOrCreate_def)
  next
    case (Some a)
    obtain rh w1 where a: "a = (rh, w1)" by (cases a)
    have e1: "evolves this w w1" using assms(1) Some a by simp
    show ?thesis
    proof (cases rh)
      case (Inl e)
      with None Some a assms(3) e1 show ?thesis by (simp add: getOrCreate_def)
    next
      case (Inr hd)
      with None Some a assms(3)
      have w': "w' = writeServices services (Map_set (readServices services w1) (first keys) hd) w1"
        by (simp add: getOrCreate_def)
      from assms(2) have "evolves this w1 w'"
      proof
        assume "services = SingleInstanceServices (singleInstanceServices this)"
        with w' show ?thesis by (simp only: evolves_write_single)
      next
        assume s: "(\<exists>d. readSymbol w (i_scope this) = Some (h, d)) \<and> services = ScopedServices h"
        with evolves_readSymbol [OF e1] obtain d1 where "readSymbol w1 (i_scope this) = Some (h, d1)"
          by blast
        from evolves_write_scoped [OF this] s w' show ?thesis by simp
      qed
      with e1 show ?thesis by (rule evolves_trans)
    qed
  qed
qed

lemma evolves_all:
  "(\<forall>this p w r w'. run n this p w = Some (r, w') \<longrightarrow> evolves this w w') \<and>
   (\<forall>this cur w r w'. createInstance n this cur w = Some (r, w') \<longrightarrow> evolves this w w') \<and>
   (\<forall>this key w r w'. getService n this key w = Some (r, w') \<longrightarrow> evolves this w w')"
proof (induction n)
  case 0
  show ?case by simp
next
  case (Suc n)
  have run: "\<And>this p w r w'. run n this p w = Some (r, w') \<Longrightarrow> evolves this w w'"
    and create: "\<And>this cur w r w'. createInstance n this cur w = Some (r, w') \<Longrightarrow> evolves this w w'"
    and get: "\<And>this key w r w'. getService n this key w = Some (r, w') \<Longrightarrow> evolves this w w'"
    using Suc by blast+
  have 1: "evolves this w w'" if "run (Suc n) this p w = Some (r, w')" for this p w r w'
  proof (cases p)
    case (Return v)
    with that show ?thesis by (simp add: evolves_refl)
  next
    case (Throw e)
    with that show ?thesis by (simp add: evolves_refl)
  next
    case (NewObj f)
    with that have "evolves this (w\<lparr>nextObj := Suc (nextObj w)\<rparr>) w'"
      using run by simp
    with evolves_alloc show ?thesis by (rule evolves_trans)
  next
    case (GetService k f)
    show ?thesis
    proof (cases "getService n this k w")
      case None
      with that GetService show ?thesis by simp
    next
      case (Some a)
      obtain r1 w1 where a: "a = (r1, w1)" by (cases a)
      with Some have e1: "evolves this w w1" using get by simp
      show ?thesis
      proof (cases r1)
        case (Inl e)
        with that GetService Some a e1 show ?thesis by simp
      next
        case (Inr v)
        with that GetService Some a have "run n this (f v) w1 = Some (r, w')" by simp
        then have "evolves this w1 w'" by (rule run)
        with e1 show ?thesis by (rule evolves_trans)
      qed
    qed
  qed
  have 2: "evolves this w w'" if "createInstance (Suc n) this cur w = Some (r, w')" for this cur w r w'
  proof -
    let ?w = "w\<lparr>factoryCalls := factoryCalls w @ [(fref (factory cur), Context (i_scope this))]\<rparr>"
    from that obtain r1 where "run n this (body (factory cur) (Context (i_scope this))) ?w = Some (r1, w')"
      by (simp add: createInstance.simps split: option.splits sum.splits prod.splits)
    then have "evolves this ?w w'" by (rule run)
    with evolves_call show ?thesis by (rule evolves_trans)
  qed
  have 3: "evolves this w w'" if "getService (Suc n) this key w = Some (r, w')" for this key w r w'
  proof (cases "map_of (registry this) key")
    case None
    with that show ?thesis by (simp add: getService_unregistered_eq evolves_refl)
  next
    case (Some cur)
    show ?thesis
    proof (cases "scope cur")
      case OnDemand
      note eq = that [unfolded getService_OnDemand [OF Some OnDemand]]
      show ?thesis
      proof (cases "createInstance n this cur w")
        case None
        with eq show ?thesis by simp
      next
        case c: (Some a)
        obtain r1 w1 where a: "a = (r1, w1)" by (cases a)
        with c have e1: "evolves this w w1" using create by simp
        have "evolves this w1 w'"
        proof (cases "readSymbol w1 (i_scope this)")
          case None
          with eq c a show ?thesis by (cases r1) (auto simp: evolves_refl)
        next
          case rs: (Some hd)
          obtain h d where hd: "hd = (h, d)" by (cases hd)
          from eq c a rs hd
          have "w' = w1 \<or> (\<exists>d'. w' = w1\<lparr>dependencyInjectionContext :=
              (dependencyInjectionContext w1)(h \<mapsto> d')\<rparr>)"
            by (cases r1) auto
          with evolves_refl evolves_push [OF rs [unfolded hd]] show ?thesis by metis
        qed
        with e1 show ?thesis by (rule evolves_trans)
      qed
    next
      case SingleInstance
      note eq = that [unfolded getService_SingleInstance [OF Some SingleInstance]]
      then obtain rh where
        "getOrCreate (serviceKeys (registry this) cur) (\<lambda>w'. createInstance n this cur w')
           (SingleInstanceServices (singleInstanceServices this)) w = Some (rh, w')"
        by (simp split: option.splits sum.splits prod.splits)
      then show ?thesis using getOrCreate_evolves create by blast
    next
      case Transient
      show ?thesis
      proof (cases "readSymbol w (i_scope this)")
        case None
        with that Some Transient show ?thesis
          by (simp add: getService_Transient_unbound evolves_refl)
      next
        case rs: (Some hd)
        obtain h d where hd: "hd = (h, d)" by (cases hd)
        note eq = that [unfolded getService_Transient [OF Some Transient rs [unfolded hd]]]
        then obtain rh where
          "getOrCreate (serviceKeys (registry this) cur) (\<lambda>w'. createInstance n this cur w')
             (ScopedServices h) w = Some (rh, w')"
          by (simp split: option.splits sum.splits prod.splits)
        moreover have "(\<exists>d. readSymbol w (i_scope this) = Some (h, d))" using rs hd by simp
        ultimately show ?thesis using getOrCreate_evolves [where h = h] create by blast
      qed
    qed
  qed
  from 1 2 3 show ?case by blast
qed

lemmas evolves_run = evolves_all [THEN conjunct1, rule_format]

lemmas evolves_createInstance = evolves_all [THEN conjunct2, THEN conjunct1, rule_format]

lemmas evolves_getService = evolves_all [THEN conjunct2, THEN conjunct2, rule_format]

lemma getOrCreate_error:
  assumes "getOrCreate keys create services w = Some (Inl e, w')"
  shows "create w = Some (Inl e, w')"
proof (cases "findService keys (readServices services w)")
  case (Some h)
  with assms show ?thesis by (simp add: getOrCreate_def)
next
  case None
  show ?thesis
  proof (cases "create w")
    case none: None
    with None assms show ?thesis by (simp add: getOrCreate_def)
  next
    case (Some a)
    obtain rh w1 where a: "a = (rh, w1)" by (cases a)
    with None Some assms show ?thesis by (cases rh) (simp_all add: getOrCreate_def)
  qed
qed

lemma serviceKeys_member:
  "map_of registry' key = Some cur \<Longrightarrow> key \<in> set (serviceKeys registry' cur)"
  by (drule map_of_SomeD) (force simp: serviceKeys_def)

lemma serviceKeys_nonempty:
  "map_of registry' key = Some cur \<Longrightarrow> serviceKeys registry' cur \<noteq> []"
  using serviceKeys_member by fastforce

lemma findService_Map_set_first:
  "keys \<noteq> [] \<Longrightarrow> findService keys (Map_set m (first keys) h) = Some h"
  by (cases keys) (simp_all add: first_def Map_set_def update_conv')

lemma findService_in_map:
  "findService keys m = Some h \<Longrightarrow> h \<in> set (map snd m)"
proof (induction keys)
  case Nil
  then show ?case by simp
next
  case (Cons k keys)
  show ?case
  proof (cases "map_of m (Some k)")
    case None
    with Cons show ?thesis by simp
  next
    case (Some h')
    with Cons.prems have "h' = h" by simp
    with Some have "(Some k, h) \<in> set m" by (simp add: map_of_SomeD)
    then show ?thesis by force
  qed
qed

lemma readServices_single [simp]:
  "readServices (SingleInstanceServices a) w = maps w a"
  by (simp add: readServices_def)

lemma readServices_scoped [simp]:
  "dependencyInjectionContext w c = Some d \<Longrightarrow> readServices (ScopedServices c) w = scopedServices d"
  by (simp add: readServices_def)

lemma writeServices_single [simp]:
  "writeServices (SingleInstanceServices a) m w = w\<lparr>maps := (maps w)(a := m)\<rparr>"
  by (simp add: writeServices_def)

lemma writeServices_scoped [simp]:
  "dependencyInjectionContext w c = Some d \<Longrightarrow>
   writeServices (ScopedServices c) m w =
     w\<lparr>dependencyInjectionContext := (dependencyInjectionContext w)(c \<mapsto> d\<lparr>scopedServices := m\<rparr>)\<rparr>"
  by (simp add: writeServices_def)

lemma getOrCreate_hit:
  "findService keys (readServices services w) = Some h \<Longrightarrow>
   getOrCreate keys create services w = Some (Inr h, w)"
  by (simp add: getOrCreate_def)

lemma getOrCreate_miss:
  "findService keys (readServices services w) = None \<Longrightarrow>
   getOrCreate keys create services w =
     (case create w of
        None \<Rightarrow> None
      | Some (Inl e, w') \<Rightarrow> Some (Inl e, w')
      | Some (Inr service, w') \<Rightarrow>
          Some (Inr service,
            writeServices services (Map_set (readServices services w') (first keys) service) w'))"
  by (simp add: getOrCreate_def)

lemma getOrCreate_result:
  assumes "getOrCreate keys create services w = Some (Inr h, w')"
  shows "(findService keys (readServices services w) = Some h \<and> w' = w) \<or>
         (findService keys (readServices services w) = None \<and>
          (\<exists>w1. create w = Some (Inr h, w1) \<and>
             w' = writeServices services (Map_set (readServices services w1) (first keys) h) w1))"
proof (cases "findService keys (readServices services w)")
  case (Some h')
  with assms show ?thesis by (simp add: getOrCreate_def)
next
  case None
  show ?thesis
  proof (cases "create w")
    case none: None
    with None assms show ?thesis by (simp add: getOrCreate_def)
  next
    case (Some a)
    obtain rh w1 where a: "a = (rh, w1)" by (cases a)
    with None Some assms show ?thesis by (cases rh) (simp_all add: getOrCreate_def)
  qed
qed

lemma getService_SingleInstance_hit:
  assumes "map_of (registry this) key = Some cur" and "scope cur = SingleInstance"
    and "findService (serviceKeys (registry this) cur) (maps w (singleInstanceServices this)) = Some h"
  shows "getService (Suc n) this key w = Some (Inr (inst h), w)"
  using assms by (simp add: getService_SingleInstance getOrCreate_hit)

lemma getService_Transient_hit:
  assumes "map_of (registry this) key = Some cur" and "scope cur = Transient"
    and "readSymbol w (i_scope this) = Some (c, d)"
    and "findService (serviceKeys (registry this) cur) (scopedServices d) = Some h"
  shows "getService (Suc n) this key w = Some (Inr (inst h), w)"
  using assms readSymbol_own [OF assms(3)]
  by (simp add: getService_Transient [OF assms(1,2,3)] getOrCreate_hit)


lemma getService_Transient_miss:
  assumes "map_of (registry this) key = Some cur" and "scope cur = Transient"
    and "readSymbol w (i_scope this) = Some (c, d)"
    and "findService (serviceKeys (registry this) cur) (scopedServices d) = None"
  shows "getService (Suc n) this key w =
     (case createInstance n this cur w of
        None \<Rightarrow> None
      | Some (Inl e, w') \<Rightarrow> Some (Inl e, w')
      | Some (Inr service, w') \<Rightarrow>
          Some (Inr (inst service),
            writeServices (ScopedServices c)
              (Map_set (readServices (ScopedServices c) w')
                 (first (serviceKeys (registry this) cur)) service) w'))"
  using assms readSymbol_own [OF assms(3)]
  by (simp add: getService_Transient [OF assms(1,2,3)] getOrCreate_miss
      split: option.splits sum.splits prod.splits)

lemma getService_SingleInstance_cached:
  assumes reg: "map_of (registry this) key = Some cur" and sc: "scope cur = SingleInstance"
    and g: "getService (Suc n) this key w = Some (Inr v, w')"
  shows "\<exists>h. findService (serviceKeys (registry this) cur) (maps w' (singleInstanceServices this)) = Some h \<and>
             inst h = v"
proof -
  let ?keys = "serviceKeys (registry this) cur"
  let ?ref = "SingleInstanceServices (singleInstanceServices this)"
  from g [unfolded getService_SingleInstance [OF reg sc]]
  obtain h where goc: "getOrCreate ?keys (\<lambda>w'. createInstance n this cur w') ?ref w = Some (Inr h, w')"
    and v: "inst h = v"
    by (auto split: option.splits sum.splits prod.splits)
  from getOrCreate_result [OF goc]
  have "findService ?keys (maps w' (singleInstanceServices this)) = Some h"
  proof (elim disjE conjE exE)
    assume "findService ?keys (readServices ?ref w) = Some h" "w' = w"
    then show ?thesis by simp
  next
    fix w1
    assume "w' = writeServices ?ref (Map_set (readServices ?ref w1) (first ?keys) h) w1"
    then show ?thesis
      by (simp add: findService_Map_set_first [OF serviceKeys_nonempty [OF reg]])
  qed
  with v show ?thesis by blast
qed

lemma getService_Transient_cached:
  assumes reg: "map_of (registry this) key = Some cur" and sc: "scope cur = Transient"
    and g: "getService (Suc n) this key w = Some (Inr v, w')"
  shows "\<exists>c d h. readSymbol w' (i_scope this) = Some (c, d) \<and>
             symbolHolder w (i_scope this) = Some c \<and>
             findService (serviceKeys (registry this) cur) (scopedServices d) = Some h \<and> inst h = v"
proof (cases "readSymbol w (i_scope this)")
  case None
  with g reg sc show ?thesis by (simp add: getService_Transient_unbound)
next
  case (Some cd)
  obtain c d0 where cd: "cd = (c, d0)" by (cases cd)
  note rs = Some [unfolded cd]
  from rs have own: "dependencyInjectionContext w c = Some d0" by (rule readSymbol_own)
  from rs have hold: "symbolHolder w (i_scope this) = Some c" by (auto simp: holder_Some)
  let ?keys = "serviceKeys (registry this) cur"
  let ?ref = "ScopedServices c"
  from g [unfolded getService_Transient [OF reg sc rs]]
  obtain h where goc: "getOrCreate ?keys (\<lambda>w'. createInstance n this cur w') ?ref w = Some (Inr h, w')"
    and v: "inst h = v"
    by (auto split: option.splits sum.splits prod.splits)
  from getOrCreate_result [OF goc]
  have "\<exists>d. readSymbol w' (i_scope this) = Some (c, d) \<and>
            findService ?keys (scopedServices d) = Some h"
  proof (elim disjE conjE exE)
    assume "findService ?keys (readServices ?ref w) = Some h" "w' = w"
    with rs own show ?thesis by simp
  next
    fix w1
    assume ci: "createInstance n this cur w = Some (Inr h, w1)"
      and w': "w' = writeServices ?ref (Map_set (readServices ?ref w1) (first ?keys) h) w1"
    from ci have "evolves this w w1" by (rule evolves_createInstance)
    from evolves_readSymbol [OF this rs] obtain d1 where
      d1: "readSymbol w1 (i_scope this) = Some (c, d1)" ..
    from d1 have own1: "dependencyInjectionContext w1 c = Some d1" by (rule readSymbol_own)
    from w' own1 readSymbol_update [OF d1] show ?thesis
      by (simp add: findService_Map_set_first [OF serviceKeys_nonempty [OF reg]])
  qed
  with v hold show ?thesis by blast
qed

lemma disposeAll_returns:
  "disposeAll hs c w = (Inr u, w') \<Longrightarrow>
   w' = w\<lparr>disposeCalls := disposeCalls w @ map (\<lambda>h. (h, c)) hs\<rparr> \<and>
   (\<forall>h \<in> set hs. h_onScopeEnd h (inst h) c = None)"
proof (induction hs arbitrary: w)
  case Nil
  then show ?case by simp
next
  case (Cons h hs)
  show ?case
  proof (cases "h_onScopeEnd h (inst h) c")
    case (Some e)
    with Cons.prems show ?thesis by (simp add: Let_def)
  next
    case None
    with Cons.prems
    have "disposeAll hs c (w\<lparr>disposeCalls := disposeCalls w @ [(h, c)]\<rparr>) = (Inr u, w')"
      by (simp add: Let_def)
    from Cons.IH [OF this] None show ?thesis by simp
  qed
qed

lemma disposeAll_all:
  "\<forall>h \<in> set hs. h_onScopeEnd h (inst h) c = None \<Longrightarrow>
   disposeAll hs c w = (Inr (), w\<lparr>disposeCalls := disposeCalls w @ map (\<lambda>h. (h, c)) hs\<rparr>)"
  by (induction hs arbitrary: w) (simp_all add: Let_def)

lemma disposeAll_frame:
  "disposeAll hs c w = (r, w') \<Longrightarrow>
   maps w' = maps w \<and> dependencyInjectionContext w' = dependencyInjectionContext w \<and>
   prototypeChain w' = prototypeChain w \<and>
   nextMap w' = nextMap w \<and> nextObj w' = nextObj w \<and> factoryCalls w' = factoryCalls w"
proof (induction hs arbitrary: w)
  case Nil
  then show ?case by auto
next
  case (Cons h hs)
  show ?case
  proof (cases "h_onScopeEnd h (inst h) c")
    case (Some e)
    with Cons.prems show ?thesis by (auto simp: Let_def)
  next
    case None
    with Cons.prems
    have "disposeAll hs c (w\<lparr>disposeCalls := disposeCalls w @ [(h, c)]\<rparr>) = (r, w')"
      by (simp add: Let_def)
    from Cons.IH [OF this] show ?thesis by simp
  qed
qed

lemma endScope_maps: "maps (snd (endScope this w)) = maps w"
proof (cases "readSymbol w (i_scope this)")
  case None
  then show ?thesis by (simp add: endScope_def)
next
  case (Some cd)
  obtain c d where cd: "cd = (c, d)" by (cases cd)
  obtain r w' where da: "disposeAll (servicesToDispose this d w) (i_scope this) w = (r, w')"
    by (cases "disposeAll (servicesToDispose this d w) (i_scope this) w")
  from disposeAll_frame [OF da] have "maps w' = maps w" by simp
  with Some cd da show ?thesis by (cases r) (simp_all add: endScope_def)
qed

lemma endScope_all:
  assumes "readSymbol w (i_scope this) = Some (c, d)"
    and "\<forall>h \<in> set (servicesToDispose this d w). h_onScopeEnd h (inst h) (i_scope this) = None"
  shows "endScope this w =
     (Inr (),
      w\<lparr>disposeCalls := disposeCalls w @ map (\<lambda>h. (h, i_scope this)) (servicesToDispose this d w),
        dependencyInjectionContext :=
          (dependencyInjectionContext w)(i_scope this \<mapsto> createDependencyData)\<rparr>)"
  using assms by (simp add: endScope_def disposeAll_all)

lemma endScope_returns:
  assumes "endScope this w = (Inr u, w')"
  shows "\<exists>c d. readSymbol w (i_scope this) = Some (c, d) \<and>
     (\<forall>h \<in> set (servicesToDispose this d w). h_onScopeEnd h (inst h) (i_scope this) = None) \<and>
     w' = w\<lparr>disposeCalls := disposeCalls w @ map (\<lambda>h. (h, i_scope this)) (servicesToDispose this d w),
            dependencyInjectionContext :=
              (dependencyInjectionContext w)(i_scope this \<mapsto> createDependencyData)\<rparr>"
proof (cases "readSymbol w (i_scope this)")
  case None
  with assms show ?thesis by (simp add: endScope_def)
next
  case (Some cd)
  obtain c d where cd: "cd = (c, d)" by (cases cd)
  note rs = Some [unfolded cd]
  obtain r w1 where da: "disposeAll (servicesToDispose this d w) (i_scope this) w = (r, w1)"
    by (cases "disposeAll (servicesToDispose this d w) (i_scope this) w")
  show ?thesis
  proof (cases r)
    case (Inl e)
    with assms rs da show ?thesis by (simp add: endScope_def)
  next
    case (Inr u')
    from disposeAll_returns [OF da [unfolded Inr]]
    have nothrow: "\<forall>h \<in> set (servicesToDispose this d w). h_onScopeEnd h (inst h) (i_scope this) = None"
      by blast
    from endScope_all [OF rs nothrow] assms rs nothrow show ?thesis by simp
  qed
qed

lemma singletonRoot_simps:
  "isMainScope singletonRoot" "i_scope singletonRoot = 0"
  "registry singletonRoot = singletonRegistry" "singleInstanceServices singletonRoot = 0"
  by (simp_all add: singletonRoot_def new_root_Injector_def new_Injector_def new_Map_def emptyWorld_def
      readSymbol_def)

lemma singletonRegistry_eq:
  "singletonRegistry =
     [(''S'', \<lparr>dref = 0, scope = SingleInstance,
               factory = FunctionConfig 0 (\<lambda>_. construct []), onScopeEnd = noop\<rparr>)]"
  by (simp add: singletonRegistry_def addType_def add_def Map_set_def)

lemma singletonWorld_eq:
  "singletonWorld =
     \<lparr>prototypeChain = (\<lambda>_. []), dependencyInjectionContext = [0 \<mapsto> createDependencyData], maps = (\<lambda>_. [])(0 := []), nextMap = Suc 0,
      nextObj = 0, factoryCalls = [], disposeCalls = []\<rparr>"
  by (simp add: singletonWorld_def new_root_Injector_def new_Injector_def new_Map_def emptyWorld_def
      readSymbol_def)

lemmas engine_defs =
  getService.simps createInstance.simps getOrCreate_def serviceKeys_def first_def Map_set_def
  createDependencyData_def endScope_def servicesToDispose_def noop_def Let_def
  heapAfter_def valueOf_def readSymbol_def

lemma findService_empty: "findService keys [] = None"
  by (induction keys) simp_all

lemma mixedRoot_simps:
  "isMainScope mixedRoot" "i_scope mixedRoot = 0"
  "registry mixedRoot = mixedRegistry" "singleInstanceServices mixedRoot = 0"
  by (simp_all add: mixedRoot_def new_root_Injector_def new_Injector_def new_Map_def emptyWorld_def
      readSymbol_def)

lemma mixedRegistry_eq:
  "mixedRegistry =
     [(''O'', \<lparr>dref = 0, scope = OnDemand,
               factory = FunctionConfig 0 (\<lambda>_. construct []), onScopeEnd = noop\<rparr>),
      (''S'', \<lparr>dref = 1, scope = SingleInstance,
               factory = FunctionConfig 1 (\<lambda>_. construct []), onScopeEnd = noop\<rparr>),
      (''T'', \<lparr>dref = 2, scope = Transient,
               factory = FunctionConfig 2 (\<lambda>_. construct []), onScopeEnd = noop\<rparr>)]"
  by (simp add: mixedRegistry_def addType_def add_def Map_set_def)

lemma mixedWorld_eq:
  "mixedWorld =
     \<lparr>prototypeChain = (\<lambda>_. []), dependencyInjectionContext = [0 \<mapsto> createDependencyData], maps = (\<lambda>_. [])(0 := []),
      nextMap = Suc 0, nextObj = 0, factoryCalls = [], disposeCalls = []\<rparr>"
  by (simp add: mixedWorld_def new_root_Injector_def new_Injector_def new_Map_def emptyWorld_def
      readSymbol_def)

lemma mixedResolved_eq:
  "mixedResolved =
     \<lparr>prototypeChain = (\<lambda>_. []),
      dependencyInjectionContext =
        [0 \<mapsto> \<lparr>scopedServices = [(Some ''T'', \<lparr>inst = Obj 1, h_onScopeEnd = noop\<rparr>)],
                 onDemandServices = [\<lparr>inst = Obj 0, h_onScopeEnd = noop\<rparr>,
                                     \<lparr>inst = Obj 3, h_onScopeEnd = noop\<rparr>]\<rparr>],
      maps = (\<lambda>_. [])(0 := [(Some ''S'', \<lparr>inst = Obj 2, h_onScopeEnd = noop\<rparr>)]),
      nextMap = Suc 0, nextObj = 4,
      factoryCalls = [(0, Context 0), (2, Context 0), (1, Context 0), (0, Context 0)],
      disposeCalls = []\<rparr>"
  by (simp add: mixedResolved_def engine_defs mixedRoot_simps mixedWorld_eq mixedRegistry_eq
      eval_nat_numeral)

lemma new_Injector_fields:
  "isMainScope (fst (new_Injector c r a b w)) = b"
  "i_scope (fst (new_Injector c r a b w)) = c"
  "registry (fst (new_Injector c r a b w)) = r"
  "singleInstanceServices (fst (new_Injector c r a b w)) = a"
  by (simp_all add: new_Injector_def)

lemma new_Injector_heap:
  "maps (snd (new_Injector c r a b w)) = maps w"
  "nextMap (snd (new_Injector c r a b w)) = nextMap w"
  "prototypeChain (snd (new_Injector c r a b w)) = prototypeChain w"
  "c' \<noteq> c \<Longrightarrow> dependencyInjectionContext (snd (new_Injector c r a b w)) c' =
     dependencyInjectionContext w c'"
  by (simp_all add: new_Injector_def split: option.splits)

lemma new_Injector_unbound:
  "readSymbol w c = None \<Longrightarrow>
   dependencyInjectionContext (snd (new_Injector c r a b w)) c = Some createDependencyData"
  by (simp add: new_Injector_def)

lemma createScope_eq:
  "createScope this newScope w =
     new_Injector newScope (registry this) (nextMap w) False
       (w\<lparr>maps := (maps w)(nextMap w := maps w (singleInstanceServices this)),
          nextMap := Suc (nextMap w)\<rparr>)"
  by (simp add: createScope_def new_Map_def)

lemma constructs_construct: "constructs (construct dependencies)"
  by (induction dependencies) (auto intro: constructs.intros)

lemma run_constructs:
  "constructs p \<Longrightarrow> run n this p w = Some (Inr v, w') \<Longrightarrow>
   \<exists>a. v = Obj a \<and> nextObj w \<le> a \<and> a < nextObj w'"
proof (induction p arbitrary: n w rule: constructs.induct)
  case (new f)
  from new.prems obtain k where n: "n = Suc (Suc k)"
    by (cases n; cases "n - 1") (simp_all add: new.hyps)
  with new.prems show ?case by (auto simp: new.hyps)
next
  case (get f key)
  from get.prems obtain k where n: "n = Suc k" by (cases n) simp_all
  show ?case
  proof (cases "getService k this key w")
    case None
    with get.prems n show ?thesis by simp
  next
    case (Some a)
    obtain r1 w1 where a: "a = (r1, w1)" by (cases a)
    with Some have e1: "evolves this w w1" using evolves_getService by simp
    show ?thesis
    proof (cases r1)
      case (Inl e)
      with get.prems n Some a show ?thesis by simp
    next
      case (Inr v1)
      with get.prems n Some a have "run k this (f v1) w1 = Some (Inr v, w')" by simp
      from get.IH [OF this] obtain b where "v = Obj b" "nextObj w1 \<le> b" "b < nextObj w'" by blast
      moreover from e1 have "nextObj w \<le> nextObj w1" by (simp add: evolves_def)
      ultimately show ?thesis by auto
    qed
  qed
next
  case (alloc f)
  from alloc.prems obtain k where n: "n = Suc k" by (cases n) simp_all
  with alloc.prems
  have "run k this (f (nextObj w)) (w\<lparr>nextObj := Suc (nextObj w)\<rparr>) = Some (Inr v, w')" by simp
  from alloc.IH [OF this] show ?case by auto
qed

lemma createInstance_calls:
  assumes "createInstance n this cur w = Some (r, w')"
  shows "\<exists>calls. factoryCalls w' =
     factoryCalls w @ (fref (factory cur), Context (i_scope this)) # calls"
proof -
  from assms obtain k where n: "n = Suc k" by (cases n) simp_all
  let ?w = "w\<lparr>factoryCalls := factoryCalls w @ [(fref (factory cur), Context (i_scope this))]\<rparr>"
  from assms n obtain r1 where
    "run k this (body (factory cur) (Context (i_scope this))) ?w = Some (r1, w')"
    by (simp add: createInstance.simps split: option.splits sum.splits prod.splits)
  from evolves_run [OF this] obtain calls where "factoryCalls w' = factoryCalls ?w @ calls"
    unfolding evolves_def by blast
  then show ?thesis by simp
qed

lemma createInstance_constructs:
  assumes "createInstance n this cur w = Some (Inr h, w')"
    and "constructs (body (factory cur) (Context (i_scope this)))"
  shows "\<exists>a. inst h = Obj a \<and> nextObj w \<le> a \<and> a < nextObj w'"
proof -
  from assms obtain k where n: "n = Suc k" by (cases n) simp_all
  let ?w = "w\<lparr>factoryCalls := factoryCalls w @ [(fref (factory cur), Context (i_scope this))]\<rparr>"
  from assms(1) n
  have "run k this (body (factory cur) (Context (i_scope this))) ?w = Some (Inr (inst h), w')"
    by (auto simp: createInstance.simps split: option.splits sum.splits prod.splits)
  from run_constructs [OF assms(2) this] show ?thesis by simp
qed

text \<open>What a missed transient lookup returns is the product of a new factory call.\<close>

lemma getService_Transient_created:
  assumes reg: "map_of (registry this) key = Some cur" and sc: "scope cur = Transient"
    and d: "readSymbol w (i_scope this) = Some (c, d)"
    and miss: "findService (serviceKeys (registry this) cur) (scopedServices d) = None"
    and g: "getService (Suc n) this key w = Some (Inr v, w')"
  shows "(\<exists>h w1. createInstance n this cur w = Some (Inr h, w1) \<and> inst h = v) \<and>
     (\<exists>calls. factoryCalls w' =
        factoryCalls w @ (fref (factory cur), Context (i_scope this)) # calls) \<and>
     (constructs (body (factory cur) (Context (i_scope this))) \<longrightarrow>
        (\<exists>a. v = Obj a \<and> nextObj w \<le> a \<and> a < nextObj w'))"
proof -
  note eq = g [unfolded getService_Transient_miss [OF reg sc d miss]]
  then obtain h w1 where ci: "createInstance n this cur w = Some (Inr h, w1)" and v: "inst h = v"
    and w': "w' = writeServices (ScopedServices c)
              (Map_set (readServices (ScopedServices c) w1)
                 (first (serviceKeys (registry this) cur)) h) w1"
    by (auto split: option.splits sum.splits prod.splits)
  from createInstance_calls [OF ci] obtain calls where
    "factoryCalls w1 = factoryCalls w @ (fref (factory cur), Context (i_scope this)) # calls" ..
  moreover have "factoryCalls w' = factoryCalls w1"
    unfolding w' by (simp add: writeServices_def split: option.splits)
  ultimately have calls: "\<exists>calls. factoryCalls w' =
        factoryCalls w @ (fref (factory cur), Context (i_scope this)) # calls" by simp
  have "nextObj w' = nextObj w1"
    unfolding w' by (simp add: writeServices_def split: option.splits)
  then have "\<exists>a. v = Obj a \<and> nextObj w \<le> a \<and> a < nextObj w'"
    if "constructs (body (factory cur) (Context (i_scope this)))"
    using createInstance_constructs [OF ci that] v by auto
  with ci v calls show ?thesis by blast
qed

lemma transientRoot_simps:
  "isMainScope transientRoot" "i_scope transientRoot = 0"
  "registry transientRoot = transientRegistry" "singleInstanceServices transientRoot = 0"
  by (simp_all add: transientRoot_def new_root_Injector_def new_Injector_def new_Map_def emptyWorld_def
      readSymbol_def)

lemma transientRegistry_eq:
  "transientRegistry =
     [(''T'', \<lparr>dref = 0, scope = Transient,
               factory = FunctionConfig 0 (\<lambda>_. construct []), onScopeEnd = noop\<rparr>)]"
  by (simp add: transientRegistry_def addType_def add_def Map_set_def)

lemma transientWorld_eq:
  "transientWorld =
     \<lparr>prototypeChain = (\<lambda>_. []), dependencyInjectionContext = [0 \<mapsto> createDependencyData], maps = (\<lambda>_. [])(0 := []),
      nextMap = Suc 0, nextObj = 0, factoryCalls = [], disposeCalls = []\<rparr>"
  by (simp add: transientWorld_def new_root_Injector_def new_Injector_def new_Map_def emptyWorld_def
      readSymbol_def)

lemma createScope_fields:
  "isMainScope (fst (createScope this newScope w)) = False"
  "i_scope (fst (createScope this newScope w)) = newScope"
  "registry (fst (createScope this newScope w)) = registry this"
  "singleInstanceServices (fst (createScope this newScope w)) = nextMap w"
  by (simp_all add: createScope_eq new_Injector_fields)

lemma createScope_heap:
  "nextObj (snd (createScope this newScope w)) = nextObj w"
  "factoryCalls (snd (createScope this newScope w)) = factoryCalls w"
  "disposeCalls (snd (createScope this newScope w)) = disposeCalls w"
  "prototypeChain (snd (createScope this newScope w)) = prototypeChain w"
  "readSymbol w newScope = None \<Longrightarrow>
     dependencyInjectionContext (snd (createScope this newScope w)) newScope = Some createDependencyData"
  "readSymbol w newScope = Some x \<Longrightarrow>
     dependencyInjectionContext (snd (createScope this newScope w)) = dependencyInjectionContext w"
  by (simp_all add: createScope_eq new_Injector_def readSymbol_def split: option.splits)



lemma serviceKeys_same_object:
  "dref d = dref d' \<Longrightarrow> serviceKeys registry' d = serviceKeys registry' d'"
  by (simp add: serviceKeys_def)









lemma constantRoot_simps:
  "isMainScope constantRoot" "i_scope constantRoot = 0"
  "registry constantRoot = constantRegistry" "singleInstanceServices constantRoot = 0"
  by (simp_all add: constantRoot_def new_root_Injector_def new_Injector_def new_Map_def emptyWorld_def)

lemma constantRegistry_eq:
  "constantRegistry =
     [(''K'', \<lparr>dref = 0, scope = Transient,
               factory = FunctionConfig 0 (\<lambda>_. Return (Num 7)), onScopeEnd = noop\<rparr>)]"
  by (simp add: constantRegistry_def add_def Map_set_def)

lemma constantWorld_eq:
  "constantWorld =
     \<lparr>prototypeChain = (\<lambda>_. []), dependencyInjectionContext = [0 \<mapsto> createDependencyData],
      maps = (\<lambda>_. [])(0 := []), nextMap = Suc 0, nextObj = 0, factoryCalls = [],
      disposeCalls = []\<rparr>"
  by (simp add: constantWorld_def new_root_Injector_def new_Injector_def new_Map_def emptyWorld_def
      readSymbol_def)

section \<open>The claims\<close>

text \<open>
  C4. For a key with no descriptor in the registry, \<open>getService\<close> fails with the error
  whose message names the key, and the heap (the single-instance map, the scoped services
  and the on-demand list of every scope) is what it was before the call. It is the only
  error \<open>getService\<close> raises itself: for a registered key, on an injector whose context
  reads data under the symbol, as the constructor leaves it, every failure of
  \<open>getService\<close> is the failure of the factory call it made (\<open>createInstance\<close>), with the
  heap that call left.
\<close>

theorem getService_unregistered:
  "(map_of (registry this) key = None \<longrightarrow>
      getService (Suc n) this key w = Some (Inl (unregistered key), w) \<and>
      unregistered key =
        Error (''There'' @ [CHR 0x27] @ ''s no type registered to the key '' @ key @ ''.'')) \<and>
   (\<forall>cur e w'.
      map_of (registry this) key = Some cur \<and>
      readSymbol w (i_scope this) \<noteq> None \<and>
      getService (Suc n) this key w = Some (Inl e, w') \<longrightarrow>
      createInstance n this cur w = Some (Inl e, w'))"
proof (intro conjI impI allI)
  assume "map_of (registry this) key = None"
  then show "getService (Suc n) this key w = Some (Inl (unregistered key), w)"
    by (rule getService_unregistered_eq)
next
  show "unregistered key =
        Error (''There'' @ [CHR 0x27] @ ''s no type registered to the key '' @ key @ ''.'')"
    by (simp add: unregistered_def)
next
  fix cur e w'
  assume a: "map_of (registry this) key = Some cur \<and>
      readSymbol w (i_scope this) \<noteq> None \<and>
      getService (Suc n) this key w = Some (Inl e, w')"
  then have reg: "map_of (registry this) key = Some cur"
    and g: "getService (Suc n) this key w = Some (Inl e, w')"
    and "readSymbol w (i_scope this) \<noteq> None" by blast+
  then obtain h d where d: "readSymbol w (i_scope this) = Some (h, d)" by fastforce
  show "createInstance n this cur w = Some (Inl e, w')"
  proof (cases "scope cur")
    case OnDemand
    note eq = g [unfolded getService_OnDemand [OF reg OnDemand]]
    show ?thesis
    proof (cases "createInstance n this cur w")
      case None
      with eq show ?thesis by simp
    next
      case (Some a)
      obtain r1 w1 where a1: "a = (r1, w1)" by (cases a)
      show ?thesis
      proof (cases r1)
        case (Inl e1)
        with eq Some a1 show ?thesis by simp
      next
        case (Inr s)
        from Some a1 have "evolves this w w1" using evolves_createInstance by simp
        from evolves_readSymbol [OF this d] obtain d1 where
          "readSymbol w1 (i_scope this) = Some (h, d1)" ..
        with eq Some a1 Inr show ?thesis by simp
      qed
    qed
  next
    case SingleInstance
    note eq = g [unfolded getService_SingleInstance [OF reg SingleInstance]]
    then have "getOrCreate (serviceKeys (registry this) cur) (\<lambda>w'. createInstance n this cur w')
           (SingleInstanceServices (singleInstanceServices this)) w = Some (Inl e, w')"
      by (simp split: option.splits sum.splits prod.splits)
    then show ?thesis by (rule getOrCreate_error)
  next
    case Transient
    note eq = g [unfolded getService_Transient [OF reg Transient d]]
    then have "getOrCreate (serviceKeys (registry this) cur) (\<lambda>w'. createInstance n this cur w')
           (ScopedServices h) w = Some (Inl e, w')"
      by (simp split: option.splits sum.splits prod.splits)
    then show ?thesis by (rule getOrCreate_error)
  qed
qed

theorem getService_unregistered_witness:
  "getService (Suc 0) (fst (new_root_Injector 0 throwingRegistry emptyWorld)) ''X''
     (snd (new_root_Injector 0 throwingRegistry emptyWorld)) =
     Some (Inl (unregistered ''X''), snd (new_root_Injector 0 throwingRegistry emptyWorld)) \<and>
   (\<exists>cur w'. map_of throwingRegistry ''T'' = Some cur \<and>
     getService (Suc (Suc (Suc 0))) (fst (new_root_Injector 0 throwingRegistry emptyWorld)) ''T''
       (snd (new_root_Injector 0 throwingRegistry emptyWorld)) = Some (Inl (Error ''boom''), w') \<and>
     createInstance (Suc (Suc 0)) (fst (new_root_Injector 0 throwingRegistry emptyWorld)) cur
       (snd (new_root_Injector 0 throwingRegistry emptyWorld)) = Some (Inl (Error ''boom''), w'))"
proof -
  let ?inj = "fst (new_root_Injector 0 throwingRegistry emptyWorld)"
  let ?w = "snd (new_root_Injector 0 throwingRegistry emptyWorld)"
  have reg: "registry ?inj = throwingRegistry"
    by (simp add: new_root_Injector_def new_Injector_def new_Map_def)
  have sc: "i_scope ?inj = 0"
    by (simp add: new_root_Injector_def new_Injector_def new_Map_def)
  have none: "map_of (registry ?inj) ''X'' = None"
    unfolding reg by (simp add: throwingRegistry_def add_def Map_set_def)
  have "\<exists>cur. map_of throwingRegistry ''T'' = Some cur \<and> scope cur = OnDemand \<and>
      body (factory cur) = (\<lambda>_. Throw (Error ''boom''))"
    by (simp add: throwingRegistry_def add_def Map_set_def)
  then obtain cur where cur: "map_of (registry ?inj) ''T'' = Some cur"
    and sco: "scope cur = OnDemand" and fac: "body (factory cur) = (\<lambda>_. Throw (Error ''boom''))"
    unfolding reg by blast
  have bound: "readSymbol ?w (i_scope ?inj) \<noteq> None"
    by (simp add: new_root_Injector_def new_Injector_def new_Map_def emptyWorld_def readSymbol_def)
  have c: "\<exists>w'. createInstance (Suc (Suc 0)) ?inj cur ?w = Some (Inl (Error ''boom''), w')"
    by (simp add: createInstance.simps fac)
  then obtain w' where c': "createInstance (Suc (Suc 0)) ?inj cur ?w = Some (Inl (Error ''boom''), w')" ..
  then have g: "getService (Suc (Suc (Suc 0))) ?inj ''T'' ?w = Some (Inl (Error ''boom''), w')"
    by (simp add: getService_OnDemand [OF cur sco])
  from getService_unregistered [of ?inj "''X''" 0 ?w] none
  have 1: "getService (Suc 0) ?inj ''X'' ?w = Some (Inl (unregistered ''X''), ?w)" by blast
  from getService_unregistered [of ?inj "''T''" "Suc (Suc 0)" ?w] cur bound g
  have 2: "createInstance (Suc (Suc 0)) ?inj cur ?w = Some (Inl (Error ''boom''), w')" by blast
  from 1 2 g cur reg show ?thesis by auto
qed

text \<open>
  C1. The registry holds one single-instance service \<open>S\<close>. A root injector is constructed
  on context 0, a child scope is created from it on context 1, and only then \<open>S\<close> is
  resolved on the root and on the child. The factory is called twice, once for each, and
  the two calls return different objects: the child works on the copy of the root's map
  taken by \<open>createScope\<close>, which the root's later \<open>set\<close> does not reach.
\<close>

theorem singleInstance_created_again_in_earlier_child:
  "\<exists>root w1 child w2 w3 w4.
     new_root_Injector 0 singletonRegistry emptyWorld = (root, w1) \<and>
     createScope root 1 w1 = (child, w2) \<and>
     getService (Suc (Suc (Suc (Suc 0)))) root ''S'' w2 = Some (Inr (Obj 0), w3) \<and>
     getService (Suc (Suc (Suc (Suc 0)))) child ''S'' w3 = Some (Inr (Obj 1), w4) \<and>
     factoryCalls w4 = [(0, Context 0), (0, Context 1)]"
  by (simp add: new_root_Injector_def new_Injector_def new_Map_def createScope_def emptyWorld_def
      singletonRegistry_def addType_def add_def Map_set_def createDependencyData_def
      getService.simps createInstance.simps serviceKeys_def getOrCreate_def first_def Let_def
      readSymbol_def)

text \<open>
  C10. \<open>endScope\<close> leaves every map of single instances as it was, on the root too. So
  when a single-instance key has been resolved on a root injector and \<open>endScope\<close> has
  then run to its end, the disposer of that instance has been called, the next
  \<open>getService\<close> for the key still finds the entry and returns the same instance without
  touching the heap (no factory call), and a second \<open>endScope\<close> calls the disposers of
  the same single-instance handles again.
\<close>

theorem endScope_keeps_singleInstances:
  assumes root: "isMainScope this"
    and reg: "map_of (registry this) key = Some cur" and sc: "scope cur = SingleInstance"
    and g: "getService (Suc m) this key w = Some (Inr v, w1)"
    and e: "endScope this w1 = (Inr (), w2)"
  shows "maps (snd (endScope that w0)) = maps w0 \<and>
     maps w2 = maps w1 \<and>
     (\<exists>h. inst h = v \<and>
        (h, i_scope this) \<in> set (drop (length (disposeCalls w1)) (disposeCalls w2))) \<and>
     getService (Suc n) this key w2 = Some (Inr v, w2) \<and>
     (\<exists>w3. endScope this w2 = (Inr (), w3) \<and> maps w3 = maps w1 \<and>
        disposeCalls w3 =
          disposeCalls w2 @
          map (\<lambda>h. (h, i_scope this)) (map snd (maps w1 (singleInstanceServices this))))"
proof -
  let ?c = "i_scope this"
  let ?a = "singleInstanceServices this"
  from endScope_returns [OF e] obtain c d where
    d: "readSymbol w1 ?c = Some (c, d)"
    and nothrow: "\<forall>h \<in> set (servicesToDispose this d w1). h_onScopeEnd h (inst h) ?c = None"
    and w2: "w2 = w1\<lparr>disposeCalls := disposeCalls w1 @ map (\<lambda>h. (h, ?c)) (servicesToDispose this d w1),
            dependencyInjectionContext := (dependencyInjectionContext w1)(?c \<mapsto> createDependencyData)\<rparr>"
    by blast
  from w2 have maps: "maps w2 = maps w1" by simp
  from getService_SingleInstance_cached [OF reg sc g] obtain h where
    h: "findService (serviceKeys (registry this) cur) (maps w1 ?a) = Some h" and v: "inst h = v"
    by blast
  from findService_in_map [OF h] root have "h \<in> set (servicesToDispose this d w1)"
    by (simp add: servicesToDispose_def)
  then have "(h, ?c) \<in> set (map (\<lambda>h. (h, ?c)) (servicesToDispose this d w1))" by simp
  with w2 have disposed: "(h, ?c) \<in> set (drop (length (disposeCalls w1)) (disposeCalls w2))"
    by simp
  from h maps have "findService (serviceKeys (registry this) cur) (maps w2 ?a) = Some h" by simp
  from getService_SingleInstance_hit [OF reg sc this] v
  have again: "getService (Suc n) this key w2 = Some (Inr v, w2)" by simp
  from w2 have d2: "readSymbol w2 ?c = Some (?c, createDependencyData)"
    by (simp add: readSymbol_own_field)
  have tracked: "servicesToDispose this createDependencyData w2 = map snd (maps w1 ?a)"
    using root maps by (simp add: servicesToDispose_def createDependencyData_def)
  from nothrow root
  have "\<forall>h \<in> set (servicesToDispose this createDependencyData w2). h_onScopeEnd h (inst h) ?c = None"
    unfolding tracked by (simp add: servicesToDispose_def)
  from endScope_all [OF d2 this]
  have "\<exists>w3. endScope this w2 = (Inr (), w3) \<and> maps w3 = maps w1 \<and>
        disposeCalls w3 = disposeCalls w2 @ map (\<lambda>h. (h, ?c)) (map snd (maps w1 ?a))"
    by (simp add: tracked maps)
  with endScope_maps maps v disposed again show ?thesis by blast
qed

theorem endScope_keeps_singleInstances_witness:
  "getService (Suc (Suc (Suc (Suc 0)))) singletonRoot ''S'' singletonWorld =
     Some (Inr (Obj 0), heapAfter (Suc (Suc (Suc (Suc 0)))) singletonRoot ''S'' singletonWorld) \<and>
   getService (Suc 0) singletonRoot ''S''
     (snd (endScope singletonRoot (heapAfter (Suc (Suc (Suc (Suc 0)))) singletonRoot ''S'' singletonWorld))) =
     Some (Inr (Obj 0),
       snd (endScope singletonRoot (heapAfter (Suc (Suc (Suc (Suc 0)))) singletonRoot ''S'' singletonWorld)))"
proof -
  let ?w1 = "heapAfter (Suc (Suc (Suc (Suc 0)))) singletonRoot ''S'' singletonWorld"
  let ?cur = "\<lparr>dref = 0, scope = SingleInstance,
               factory = FunctionConfig 0 (\<lambda>_. construct []), onScopeEnd = noop\<rparr>"
  have reg: "map_of (registry singletonRoot) ''S'' = Some ?cur"
    by (simp add: singletonRoot_simps singletonRegistry_eq)
  have sc: "scope ?cur = SingleInstance" by simp
  have g: "getService (Suc (Suc (Suc (Suc 0)))) singletonRoot ''S'' singletonWorld = Some (Inr (Obj 0), ?w1)"
    by (simp add: engine_defs singletonRoot_simps singletonWorld_eq singletonRegistry_eq)
  have e: "endScope singletonRoot ?w1 = (Inr (), snd (endScope singletonRoot ?w1))"
    by (simp add: engine_defs singletonRoot_simps singletonWorld_eq singletonRegistry_eq)
  from endScope_keeps_singleInstances [OF singletonRoot_simps(1) reg sc g e, of singletonRoot singletonWorld 0] g
  show ?thesis by blast
qed

text \<open>
  C3. On an injector whose context reads data under the symbol (its own, or through its
  prototype chain), when no tracked disposer throws, \<open>endScope\<close>
  returns after calling, with the injector's context, the disposer of every tracked handle
  once and in this order: the on-demand handles as created, then the handles of the
  scoped (transient) map in insertion order, then, on the root only, the handles of the
  single-instance map in insertion order. It leaves the context with empty data of its
  own, the very data the constructor gives a context that reads none, and changes nothing
  else of the heap; so a transient key resolved next misses the map and has its factory
  called, as on a new scope.
\<close>

theorem endScope_disposes_in_order:
  assumes d: "readSymbol w (i_scope this) = Some (holder, d)"
    and nothrow: "\<forall>h \<in> set (servicesToDispose this d w). h_onScopeEnd h (inst h) (i_scope this) = None"
  shows "\<exists>w'. endScope this w = (Inr (), w') \<and>
     disposeCalls w' =
       disposeCalls w @
       map (\<lambda>h. (h, i_scope this))
         (onDemandServices d @ map snd (scopedServices d) @
          (if isMainScope this then map snd (maps w (singleInstanceServices this)) else [])) \<and>
     dependencyInjectionContext w' (i_scope this) =
       Some \<lparr>scopedServices = [], onDemandServices = []\<rparr> \<and>
     (\<forall>w0. readSymbol w0 (i_scope this) = None \<longrightarrow>
        dependencyInjectionContext
          (snd (new_Injector (i_scope this) (registry this) (singleInstanceServices this)
                  (isMainScope this) w0))
          (i_scope this) = dependencyInjectionContext w' (i_scope this)) \<and>
     (\<forall>c. c \<noteq> i_scope this \<longrightarrow> dependencyInjectionContext w' c = dependencyInjectionContext w c) \<and>
     maps w' = maps w \<and> factoryCalls w' = factoryCalls w \<and>
     (\<forall>key cur n. map_of (registry this) key = Some cur \<and> scope cur = Transient \<longrightarrow>
        getService (Suc n) this key w' =
          (case createInstance n this cur w' of
             None \<Rightarrow> None
           | Some (Inl e, w'') \<Rightarrow> Some (Inl e, w'')
           | Some (Inr service, w'') \<Rightarrow>
               Some (Inr (inst service),
                 writeServices (ScopedServices (i_scope this))
                   (Map_set (readServices (ScopedServices (i_scope this)) w'')
                      (first (serviceKeys (registry this) cur)) service) w'')))"
proof -
  let ?w' = "w\<lparr>disposeCalls := disposeCalls w @ map (\<lambda>h. (h, i_scope this)) (servicesToDispose this d w),
        dependencyInjectionContext :=
          (dependencyInjectionContext w)(i_scope this \<mapsto> createDependencyData)\<rparr>"
  have e: "endScope this w = (Inr (), ?w')" by (rule endScope_all [OF d nothrow])
  have calls: "disposeCalls ?w' =
       disposeCalls w @
       map (\<lambda>h. (h, i_scope this))
         (onDemandServices d @ map snd (scopedServices d) @
          (if isMainScope this then map snd (maps w (singleInstanceServices this)) else []))"
    by (simp add: servicesToDispose_def)
  have data: "dependencyInjectionContext ?w' (i_scope this) = Some createDependencyData" by simp
  have empty: "dependencyInjectionContext ?w' (i_scope this) =
       Some \<lparr>scopedServices = [], onDemandServices = []\<rparr>"
    by (simp add: createDependencyData_def)
  have new: "dependencyInjectionContext
          (snd (new_Injector (i_scope this) (registry this) (singleInstanceServices this)
                  (isMainScope this) w0))
          (i_scope this) = dependencyInjectionContext ?w' (i_scope this)"
    if "readSymbol w0 (i_scope this) = None" for w0
    using new_Injector_unbound [OF that] by simp
  have miss: "getService (Suc n) this key ?w' =
          (case createInstance n this cur ?w' of
             None \<Rightarrow> None
           | Some (Inl e, w'') \<Rightarrow> Some (Inl e, w'')
           | Some (Inr service, w'') \<Rightarrow>
               Some (Inr (inst service),
                 writeServices (ScopedServices (i_scope this))
                   (Map_set (readServices (ScopedServices (i_scope this)) w'')
                      (first (serviceKeys (registry this) cur)) service) w''))"
    if "map_of (registry this) key = Some cur" "scope cur = Transient" for key cur n
  proof (rule getService_Transient_miss [OF that readSymbol_own_field [OF data]])
    show "findService (serviceKeys (registry this) cur) (scopedServices createDependencyData) = None"
      by (simp add: createDependencyData_def findService_empty)
  qed
  have frame: "(\<forall>c. c \<noteq> i_scope this \<longrightarrow>
      dependencyInjectionContext ?w' c = dependencyInjectionContext w c) \<and>
     maps ?w' = maps w \<and> factoryCalls ?w' = factoryCalls w"
    by simp
  show ?thesis
    apply (rule exI [of _ ?w'])
    using e calls empty new frame miss by blast
qed

theorem endScope_disposes_in_order_witness:
  "\<exists>w'. endScope mixedRoot mixedResolved = (Inr (), w') \<and>
     disposeCalls w' =
       [(\<lparr>inst = Obj 0, h_onScopeEnd = noop\<rparr>, 0), (\<lparr>inst = Obj 3, h_onScopeEnd = noop\<rparr>, 0),
        (\<lparr>inst = Obj 1, h_onScopeEnd = noop\<rparr>, 0), (\<lparr>inst = Obj 2, h_onScopeEnd = noop\<rparr>, 0)] \<and>
     dependencyInjectionContext w' 0 = Some \<lparr>scopedServices = [], onDemandServices = []\<rparr>"
proof -
  let ?d = "\<lparr>scopedServices = [(Some ''T'', \<lparr>inst = Obj 1, h_onScopeEnd = noop\<rparr>)],
                 onDemandServices = [\<lparr>inst = Obj 0, h_onScopeEnd = noop\<rparr>,
                                     \<lparr>inst = Obj 3, h_onScopeEnd = noop\<rparr>]\<rparr>"
  have d: "readSymbol mixedResolved (i_scope mixedRoot) = Some (0, ?d)"
    by (simp add: mixedResolved_eq mixedRoot_simps readSymbol_def)
  have nothrow: "\<forall>h \<in> set (servicesToDispose mixedRoot ?d mixedResolved).
      h_onScopeEnd h (inst h) (i_scope mixedRoot) = None"
    by (simp add: servicesToDispose_def mixedResolved_eq mixedRoot_simps noop_def)
  from endScope_disposes_in_order [OF d nothrow] obtain w' where
    "endScope mixedRoot mixedResolved = (Inr (), w')"
    "disposeCalls w' =
       disposeCalls mixedResolved @
       map (\<lambda>h. (h, i_scope mixedRoot))
         (onDemandServices ?d @ map snd (scopedServices ?d) @
          (if isMainScope mixedRoot then map snd (maps mixedResolved (singleInstanceServices mixedRoot)) else []))"
    "dependencyInjectionContext w' (i_scope mixedRoot) =
       Some \<lparr>scopedServices = [], onDemandServices = []\<rparr>"
    by blast
  then show ?thesis by (simp add: mixedResolved_eq mixedRoot_simps eval_nat_numeral)
qed

text \<open>
  C2. \<open>createScope\<close> on an injector whose map of single instances is allocated returns an
  injector that is not the main scope, is bound to the new context, has the same registry,
  and has a map of its own, at a new address, holding the entries the parent's map holds
  at that moment; the parent's map is left as it is. So a single-instance key the parent
  has cached then is returned to the child from its copy, with no factory call. From then
  on the two maps are apart, in any heap: no call of \<open>getService\<close> on the parent changes
  the child's map, and none on the child changes the parent's.
\<close>

theorem createScope_snapshot:
  assumes alloc: "singleInstanceServices this < nextMap w"
    and cs: "createScope this newScope w = (child, w')"
  shows "\<not> isMainScope child \<and> i_scope child = newScope \<and> registry child = registry this \<and>
     singleInstanceServices child \<noteq> singleInstanceServices this \<and>
     singleInstanceServices child = nextMap w \<and> singleInstanceServices child < nextMap w' \<and>
     maps w' (singleInstanceServices child) = maps w (singleInstanceServices this) \<and>
     maps w' (singleInstanceServices this) = maps w (singleInstanceServices this) \<and>
     (\<forall>key cur h n.
        map_of (registry this) key = Some cur \<and> scope cur = SingleInstance \<and>
        findService (serviceKeys (registry this) cur) (maps w (singleInstanceServices this)) = Some h \<longrightarrow>
        getService (Suc n) child key w' = Some (Inr (inst h), w')) \<and>
     (\<forall>n key w1 r w2. getService n this key w1 = Some (r, w2) \<longrightarrow>
        maps w2 (singleInstanceServices child) = maps w1 (singleInstanceServices child)) \<and>
     (\<forall>n key w1 r w2. getService n child key w1 = Some (r, w2) \<longrightarrow>
        maps w2 (singleInstanceServices this) = maps w1 (singleInstanceServices this))"
proof -
  let ?w1 = "w\<lparr>maps := (maps w)(nextMap w := maps w (singleInstanceServices this)),
          nextMap := Suc (nextMap w)\<rparr>"
  from cs have child: "child = fst (new_Injector newScope (registry this) (nextMap w) False ?w1)"
    and w': "w' = snd (new_Injector newScope (registry this) (nextMap w) False ?w1)"
    by (simp_all add: createScope_eq)
  have fields: "\<not> isMainScope child" "i_scope child = newScope" "registry child = registry this"
    "singleInstanceServices child = nextMap w"
    by (simp_all add: child new_Injector_fields)
  from alloc fields have ne: "singleInstanceServices child \<noteq> singleInstanceServices this" by simp
  have m: "maps w' = (maps w)(nextMap w := maps w (singleInstanceServices this))"
    by (simp add: w' new_Injector_heap)
  have lt: "singleInstanceServices child < nextMap w'"
    by (simp add: w' new_Injector_heap fields)
  have copy: "maps w' (singleInstanceServices child) = maps w (singleInstanceServices this)"
    by (simp add: m fields)
  from alloc have keep: "maps w' (singleInstanceServices this) = maps w (singleInstanceServices this)"
    by (simp add: m)
  have hit: "getService (Suc n) child key w' = Some (Inr (inst h), w')"
    if "map_of (registry this) key = Some cur" "scope cur = SingleInstance"
      "findService (serviceKeys (registry this) cur) (maps w (singleInstanceServices this)) = Some h"
    for key cur h n
    using that getService_SingleInstance_hit [of child key cur w' h n] by (simp add: fields(3) copy)
  have f1: "maps w2 (singleInstanceServices child) = maps w1 (singleInstanceServices child)"
    if "getService n this key w1 = Some (r, w2)" for n key w1 r w2
    using evolves_getService [OF that] ne by (simp add: evolves_def)
  have f2: "maps w2 (singleInstanceServices this) = maps w1 (singleInstanceServices this)"
    if "getService n child key w1 = Some (r, w2)" for n key w1 r w2
    using evolves_getService [OF that] ne by (simp add: evolves_def)
  from fields ne lt copy keep hit f1 f2 show ?thesis by blast
qed

theorem createScope_snapshot_witness:
  "\<exists>child w'. createScope singletonRoot 1 singletonWorld = (child, w') \<and>
     singleInstanceServices singletonRoot = 0 \<and> singleInstanceServices child = 1 \<and>
     \<not> isMainScope child \<and>
     maps (heapAfter (Suc (Suc (Suc (Suc 0)))) singletonRoot ''S'' w') 1 = maps w' 1 \<and>
     maps w' 1 = [] \<and>
     maps (heapAfter (Suc (Suc (Suc (Suc 0)))) singletonRoot ''S'' w') 0 =
       [(Some ''S'', \<lparr>inst = Obj 0, h_onScopeEnd = noop\<rparr>)]"
proof -
  obtain child w' where cs: "createScope singletonRoot 1 singletonWorld = (child, w')"
    by (cases "createScope singletonRoot 1 singletonWorld")
  have alloc: "singleInstanceServices singletonRoot < nextMap singletonWorld"
    by (simp add: singletonRoot_simps singletonWorld_eq)
  note th = createScope_snapshot [OF alloc cs]
  from th have c1: "singleInstanceServices child = 1" "\<not> isMainScope child"
    by (simp_all add: singletonWorld_eq)
  from cs have w': "w' = snd (createScope singletonRoot 1 singletonWorld)" by simp
  have g: "\<exists>r. getService (Suc (Suc (Suc (Suc 0)))) singletonRoot ''S'' w' =
      Some (r, heapAfter (Suc (Suc (Suc (Suc 0)))) singletonRoot ''S'' w')"
    unfolding w'
    by (simp add: createScope_eq new_Injector_def engine_defs singletonRoot_simps singletonWorld_eq
        singletonRegistry_eq)
  then obtain r where "getService (Suc (Suc (Suc (Suc 0)))) singletonRoot ''S'' w' =
      Some (r, heapAfter (Suc (Suc (Suc (Suc 0)))) singletonRoot ''S'' w')" ..
  with th have frame: "maps (heapAfter (Suc (Suc (Suc (Suc 0)))) singletonRoot ''S'' w')
      (singleInstanceServices child) = maps w' (singleInstanceServices child)"
    by blast
  have empty: "maps w' 1 = []"
    unfolding w'
    by (simp add: createScope_eq new_Injector_def readSymbol_def singletonRoot_simps
        singletonWorld_eq)
  have parent: "maps (heapAfter (Suc (Suc (Suc (Suc 0)))) singletonRoot ''S'' w') 0 =
       [(Some ''S'', \<lparr>inst = Obj 0, h_onScopeEnd = noop\<rparr>)]"
    unfolding w'
    by (simp add: createScope_eq new_Injector_def engine_defs singletonRoot_simps singletonWorld_eq
        singletonRegistry_eq)
  from cs c1 frame empty parent singletonRoot_simps(4) show ?thesis by auto
qed

text \<open>
  C9. The scoped services and the on-demand list live in the data object that the context
  object of a scope reads under the symbol, and the constructor leaves a context that
  reads one as it is. So when a child scope is created on the parent's own context, the
  heap keeps the very same data. The two injectors then share one cache and one list: a
  transient key resolved on the parent is returned to the child as the same instance, with
  the heap untouched (no factory call), and the handle of an on-demand instance that the
  child creates is appended to the list the parent reads. When none of the disposers it
  has to call throws, \<open>endScope\<close> on the child returns, and so does \<open>endScope\<close> on the
  parent: either calls the disposers of the on-demand and scoped handles tracked on the
  context, the parent's instance among them, and leaves the context with empty data of
  its own, so that the next lookup of the key misses and is a call of the factory, on the
  parent and on the child alike. Two scopes on one context object are thus never isolated
  from each other.
\<close>

theorem scopes_on_one_context_share:
  assumes bound: "readSymbol w (i_scope this) = Some (holder, d)"
    and cs: "createScope this (i_scope this) w = (child, w')"
    and reg: "map_of (registry this) key = Some cur" and sc: "scope cur = Transient"
    and g: "getService (Suc m) this key w' = Some (Inr v, w1)"
  shows "dependencyInjectionContext w' = dependencyInjectionContext w \<and>
     prototypeChain w' = prototypeChain w \<and>
     i_scope child = i_scope this \<and>
     getService (Suc n) child key w1 = Some (Inr v, w1) \<and>
     (\<exists>d1. readSymbol w1 (i_scope this) = Some (holder, d1) \<and>
        (\<forall>key' cur' n' v' w2.
           map_of (registry this) key' = Some cur' \<and> scope cur' = OnDemand \<and>
           getService (Suc n') child key' w1 = Some (Inr v', w2) \<longrightarrow>
           (\<exists>d2 hs h'. readSymbol w2 (i_scope this) = Some (holder, d2) \<and>
              onDemandServices d2 = hs @ [h'] \<and> inst h' = v')) \<and>
        ((\<forall>h \<in> set (onDemandServices d1 @ map snd (scopedServices d1)).
            h_onScopeEnd h (inst h) (i_scope this) = None) \<longrightarrow>
         (\<exists>w2. endScope child w1 = (Inr (), w2) \<and>
            disposeCalls w2 =
              disposeCalls w1 @
              map (\<lambda>h. (h, i_scope this)) (onDemandServices d1 @ map snd (scopedServices d1)) \<and>
            (\<exists>h. inst h = v \<and>
               (h, i_scope this) \<in> set (drop (length (disposeCalls w1)) (disposeCalls w2))) \<and>
            readSymbol w2 (i_scope this) = Some (i_scope this, createDependencyData) \<and>
            getService (Suc n) this key w2 =
              (case createInstance n this cur w2 of
                 None \<Rightarrow> None
               | Some (Inl e, w'') \<Rightarrow> Some (Inl e, w'')
               | Some (Inr service, w'') \<Rightarrow>
                   Some (Inr (inst service),
                     writeServices (ScopedServices (i_scope this))
                       (Map_set (readServices (ScopedServices (i_scope this)) w'')
                          (first (serviceKeys (registry this) cur)) service) w'')) \<and>
            getService (Suc n) child key w2 =
              (case createInstance n child cur w2 of
                 None \<Rightarrow> None
               | Some (Inl e, w'') \<Rightarrow> Some (Inl e, w'')
               | Some (Inr service, w'') \<Rightarrow>
                   Some (Inr (inst service),
                     writeServices (ScopedServices (i_scope this))
                       (Map_set (readServices (ScopedServices (i_scope this)) w'')
                          (first (serviceKeys (registry this) cur)) service) w'')))) \<and>
        ((\<forall>h \<in> set (onDemandServices d1 @ map snd (scopedServices d1) @
                       (if isMainScope this
                        then map snd (maps w1 (singleInstanceServices this)) else [])).
            h_onScopeEnd h (inst h) (i_scope this) = None) \<longrightarrow>
         (\<exists>w2. endScope this w1 = (Inr (), w2) \<and>
            disposeCalls w2 =
              disposeCalls w1 @
              map (\<lambda>h. (h, i_scope this))
                (onDemandServices d1 @ map snd (scopedServices d1) @
                 (if isMainScope this
                  then map snd (maps w1 (singleInstanceServices this)) else [])) \<and>
            (\<exists>h. inst h = v \<and>
               (h, i_scope this) \<in> set (drop (length (disposeCalls w1)) (disposeCalls w2))) \<and>
            readSymbol w2 (i_scope this) = Some (i_scope this, createDependencyData) \<and>
            getService (Suc n) this key w2 =
              (case createInstance n this cur w2 of
                 None \<Rightarrow> None
               | Some (Inl e, w'') \<Rightarrow> Some (Inl e, w'')
               | Some (Inr service, w'') \<Rightarrow>
                   Some (Inr (inst service),
                     writeServices (ScopedServices (i_scope this))
                       (Map_set (readServices (ScopedServices (i_scope this)) w'')
                          (first (serviceKeys (registry this) cur)) service) w'')) \<and>
            getService (Suc n) child key w2 =
              (case createInstance n child cur w2 of
                 None \<Rightarrow> None
               | Some (Inl e, w'') \<Rightarrow> Some (Inl e, w'')
               | Some (Inr service, w'') \<Rightarrow>
                   Some (Inr (inst service),
                     writeServices (ScopedServices (i_scope this))
                       (Map_set (readServices (ScopedServices (i_scope this)) w'')
                          (first (serviceKeys (registry this) cur)) service) w'')))))"
proof -
  let ?c = "i_scope this"
  from cs have child: "child = fst (createScope this ?c w)" and w': "w' = snd (createScope this ?c w)"
    by simp_all
  have same: "dependencyInjectionContext w' = dependencyInjectionContext w"
    unfolding w' by (rule createScope_heap(6) [OF bound])
  have chain: "prototypeChain w' = prototypeChain w"
    unfolding w' by (rule createScope_heap(4))
  have ctx: "i_scope child = ?c" and regc: "registry child = registry this"
    and nonroot: "\<not> isMainScope child"
    unfolding child by (simp_all add: createScope_fields)
  from bound same chain have "readSymbol w' ?c = Some (holder, d)" by (simp add: readSymbol_def)
  then have hold: "symbolHolder w' ?c = Some holder" by (auto simp: holder_Some)
  from getService_Transient_cached [OF reg sc g] hold obtain d1 h where
    d1: "readSymbol w1 ?c = Some (holder, d1)"
    and h: "findService (serviceKeys (registry this) cur) (scopedServices d1) = Some h"
    and v: "inst h = v" by auto
  have hit: "getService (Suc n) child key w1 = Some (Inr v, w1)"
    using getService_Transient_hit [of child key cur w1 holder d1 h n] reg sc d1 h v
    by (simp add: ctx regc)
  have shared: "\<exists>d2 hs h'. readSymbol w2 ?c = Some (holder, d2) \<and>
      onDemandServices d2 = hs @ [h'] \<and> inst h' = v'"
    if r: "map_of (registry this) key' = Some cur'" and o: "scope cur' = OnDemand"
      and g': "getService (Suc n') child key' w1 = Some (Inr v', w2)"
    for key' cur' n' v' w2
  proof -
    from r regc have r': "map_of (registry child) key' = Some cur'" by simp
    note eq = g' [unfolded getService_OnDemand [OF r' o]]
    then obtain s w'' where ci: "createInstance n' child cur' w1 = Some (Inr s, w'')"
      by (auto split: option.splits sum.splits prod.splits)
    from ci have "evolves child w1 w''" by (rule evolves_createInstance)
    from evolves_readSymbol [OF this d1] obtain d'' where
      rs: "readSymbol w'' ?c = Some (holder, d'')" ..
    from eq ci rs ctx have v': "inst s = v'"
      and w2: "w2 = w''\<lparr>dependencyInjectionContext :=
                 (dependencyInjectionContext w'')(holder \<mapsto>
                   d''\<lparr>onDemandServices := onDemandServices d'' @ [s]\<rparr>)\<rparr>"
      by simp_all
    from readSymbol_update [OF rs] w2
    have "readSymbol w2 ?c = Some (holder, d''\<lparr>onDemandServices := onDemandServices d'' @ [s]\<rparr>)"
      by simp
    moreover have "onDemandServices (d''\<lparr>onDemandServices := onDemandServices d'' @ [s]\<rparr>) =
        onDemandServices d'' @ [s]" by simp
    ultimately show ?thesis using v' by blast
  qed
  have miss: "findService (serviceKeys (registry this) cur) (scopedServices createDependencyData) = None"
    by (simp add: createDependencyData_def findService_empty)
  have form: "getService (Suc n) inj key w2 =
          (case createInstance n inj cur w2 of
             None \<Rightarrow> None
           | Some (Inl e, w'') \<Rightarrow> Some (Inl e, w'')
           | Some (Inr service, w'') \<Rightarrow>
               Some (Inr (inst service),
                 writeServices (ScopedServices (i_scope this))
                   (Map_set (readServices (ScopedServices (i_scope this)) w'')
                      (first (serviceKeys (registry this) cur)) service) w''))"
    if regi: "registry inj = registry this" and ctxi: "i_scope inj = ?c"
      and rs: "readSymbol w2 ?c = Some (?c, createDependencyData)"
    for inj :: Injector and w2
  proof -
    from reg regi have r: "map_of (registry inj) key = Some cur" by simp
    from rs ctxi have rs': "readSymbol w2 (i_scope inj) = Some (?c, createDependencyData)" by simp
    from miss regi
    have m: "findService (serviceKeys (registry inj) cur) (scopedServices createDependencyData) = None"
      by simp
    from getService_Transient_miss [OF r sc rs' m, of n, unfolded regi] show ?thesis .
  qed
  from findService_in_map [OF h] have tracked: "h \<in> set (map snd (scopedServices d1))" .
  have ends: "\<exists>w2. endScope that w1 = (Inr (), w2) \<and>
        disposeCalls w2 =
          disposeCalls w1 @ map (\<lambda>h. (h, ?c)) (servicesToDispose that d1 w1) \<and>
        (\<exists>h. inst h = v \<and> (h, ?c) \<in> set (drop (length (disposeCalls w1)) (disposeCalls w2))) \<and>
        readSymbol w2 ?c = Some (?c, createDependencyData) \<and>
        getService (Suc n) this key w2 =
          (case createInstance n this cur w2 of
                 None \<Rightarrow> None
               | Some (Inl e, w'') \<Rightarrow> Some (Inl e, w'')
               | Some (Inr service, w'') \<Rightarrow>
                   Some (Inr (inst service),
                     writeServices (ScopedServices (i_scope this))
                       (Map_set (readServices (ScopedServices (i_scope this)) w'')
                          (first (serviceKeys (registry this) cur)) service) w'')) \<and>
        getService (Suc n) child key w2 =
          (case createInstance n child cur w2 of
                 None \<Rightarrow> None
               | Some (Inl e, w'') \<Rightarrow> Some (Inl e, w'')
               | Some (Inr service, w'') \<Rightarrow>
                   Some (Inr (inst service),
                     writeServices (ScopedServices (i_scope this))
                       (Map_set (readServices (ScopedServices (i_scope this)) w'')
                          (first (serviceKeys (registry this) cur)) service) w''))"
    if ctxt: "i_scope that = ?c"
      and nothrow: "\<forall>h \<in> set (servicesToDispose that d1 w1). h_onScopeEnd h (inst h) ?c = None"
    for that :: Injector
  proof -
    let ?w2 = "w1\<lparr>disposeCalls := disposeCalls w1 @
                 map (\<lambda>h. (h, i_scope that)) (servicesToDispose that d1 w1),
               dependencyInjectionContext :=
                 (dependencyInjectionContext w1)(i_scope that \<mapsto> createDependencyData)\<rparr>"
    from d1 ctxt have rs: "readSymbol w1 (i_scope that) = Some (holder, d1)" by simp
    from nothrow ctxt
    have nt: "\<forall>h \<in> set (servicesToDispose that d1 w1). h_onScopeEnd h (inst h) (i_scope that) = None"
      by simp
    have e: "endScope that w1 = (Inr (), ?w2)" by (rule endScope_all [OF rs nt])
    have calls: "disposeCalls ?w2 =
        disposeCalls w1 @ map (\<lambda>h. (h, ?c)) (servicesToDispose that d1 w1)"
      by (simp add: ctxt)
    from tracked have "h \<in> set (servicesToDispose that d1 w1)"
      by (simp add: servicesToDispose_def)
    then have "(h, ?c) \<in> set (drop (length (disposeCalls w1)) (disposeCalls ?w2))"
      by (simp add: ctxt)
    with v have disposed: "\<exists>h. inst h = v \<and>
        (h, ?c) \<in> set (drop (length (disposeCalls w1)) (disposeCalls ?w2))" by blast
    have "dependencyInjectionContext ?w2 ?c = Some createDependencyData" by (simp add: ctxt)
    then have data: "readSymbol ?w2 ?c = Some (?c, createDependencyData)"
      by (rule readSymbol_own_field)
    from e calls disposed data form [OF refl refl data] form [OF regc ctx data]
    show ?thesis by blast
  qed
  have tc: "servicesToDispose child d1 w1 = onDemandServices d1 @ map snd (scopedServices d1)"
    using nonroot by (simp add: servicesToDispose_def)
  have tp: "servicesToDispose this d1 w1 =
      onDemandServices d1 @ map snd (scopedServices d1) @
      (if isMainScope this then map snd (maps w1 (singleInstanceServices this)) else [])"
    by (simp add: servicesToDispose_def)
  note endc = ends [OF ctx, unfolded tc]
  note endp = ends [OF refl, unfolded tp]
  from same chain ctx hit d1 shared endc endp show ?thesis by blast
qed

theorem scopes_on_one_context_share_witness:
  "\<exists>child w' w1 w2 w3 w4 w5.
     createScope transientRoot 0 transientWorld = (child, w') \<and>
     getService (Suc (Suc (Suc (Suc 0)))) transientRoot ''T'' w' = Some (Inr (Obj 0), w1) \<and>
     getService (Suc (Suc (Suc (Suc 0)))) child ''T'' w1 = Some (Inr (Obj 0), w1) \<and>
     endScope child w1 = (Inr (), w2) \<and>
     disposeCalls w2 = [(\<lparr>inst = Obj 0, h_onScopeEnd = noop\<rparr>, 0)] \<and>
     getService (Suc (Suc (Suc (Suc 0)))) transientRoot ''T'' w2 = Some (Inr (Obj 1), w3) \<and>
     factoryCalls w3 = [(0, Context 0), (0, Context 0)] \<and>
     endScope transientRoot w1 = (Inr (), w4) \<and>
     disposeCalls w4 = [(\<lparr>inst = Obj 0, h_onScopeEnd = noop\<rparr>, 0)] \<and>
     getService (Suc (Suc (Suc (Suc 0)))) child ''T'' w4 = Some (Inr (Obj 1), w5) \<and>
     factoryCalls w5 = [(0, Context 0), (0, Context 0)]"
proof -
  let ?n = "Suc (Suc (Suc 0))"
  let ?cur = "\<lparr>dref = 0, scope = Transient,
               factory = FunctionConfig 0 (\<lambda>_. construct []), onScopeEnd = noop\<rparr>"
  let ?d1 = "\<lparr>scopedServices = [(Some ''T'', \<lparr>inst = Obj 0, h_onScopeEnd = noop\<rparr>)],
              onDemandServices = []\<rparr>"
  let ?child = "fst (createScope transientRoot 0 transientWorld)"
  let ?w' = "snd (createScope transientRoot 0 transientWorld)"
  let ?W1 = "heapAfter (Suc ?n) transientRoot ''T'' ?w'"
  note defs = createScope_eq new_Injector_def engine_defs transientRoot_simps transientWorld_eq
      transientRegistry_eq readServices_def writeServices_def
  have cs0: "createScope transientRoot 0 transientWorld = (?child, ?w')" by simp
  then have cs: "createScope transientRoot (i_scope transientRoot) transientWorld = (?child, ?w')"
    by (simp add: transientRoot_simps)
  have bound: "readSymbol transientWorld (i_scope transientRoot) = Some (0, createDependencyData)"
    by (simp add: transientWorld_eq transientRoot_simps readSymbol_def)
  have reg: "map_of (registry transientRoot) ''T'' = Some ?cur"
    by (simp add: transientRoot_simps transientRegistry_eq)
  have sc: "scope ?cur = Transient" by simp
  have g: "getService (Suc ?n) transientRoot ''T'' ?w' = Some (Inr (Obj 0), ?W1)"
    by (simp add: defs)
  have rs: "readSymbol ?W1 (i_scope transientRoot) = Some (0, ?d1)"
    by (simp add: defs)
  have ntc: "\<forall>h \<in> set (onDemandServices ?d1 @ map snd (scopedServices ?d1)).
      h_onScopeEnd h (inst h) (i_scope transientRoot) = None"
    by (simp add: noop_def)
  have ntp: "\<forall>h \<in> set (onDemandServices ?d1 @ map snd (scopedServices ?d1) @
                   (if isMainScope transientRoot
                    then map snd (maps ?W1 (singleInstanceServices transientRoot)) else [])).
      h_onScopeEnd h (inst h) (i_scope transientRoot) = None"
    by (simp add: defs)
  note th = scopes_on_one_context_share [OF bound cs reg sc g, of ?n]
  from th have hit: "getService (Suc ?n) ?child ''T'' ?W1 = Some (Inr (Obj 0), ?W1)" by blast
  from th rs have "\<exists>w2. endScope ?child ?W1 = (Inr (), w2) \<and>
      disposeCalls w2 =
        disposeCalls ?W1 @
        map (\<lambda>h. (h, i_scope transientRoot)) (onDemandServices ?d1 @ map snd (scopedServices ?d1))"
    using ntc by auto
  then obtain w2 where ec: "endScope ?child ?W1 = (Inr (), w2)"
    and dc: "disposeCalls w2 =
        disposeCalls ?W1 @
        map (\<lambda>h. (h, i_scope transientRoot)) (onDemandServices ?d1 @ map snd (scopedServices ?d1))"
    by blast
  from th rs have "\<exists>w4. endScope transientRoot ?W1 = (Inr (), w4) \<and>
      disposeCalls w4 =
        disposeCalls ?W1 @
        map (\<lambda>h. (h, i_scope transientRoot))
          (onDemandServices ?d1 @ map snd (scopedServices ?d1) @
           (if isMainScope transientRoot
            then map snd (maps ?W1 (singleInstanceServices transientRoot)) else []))"
    using ntp by auto
  then obtain w4 where ep: "endScope transientRoot ?W1 = (Inr (), w4)"
    and dp: "disposeCalls w4 =
        disposeCalls ?W1 @
        map (\<lambda>h. (h, i_scope transientRoot))
          (onDemandServices ?d1 @ map snd (scopedServices ?d1) @
           (if isMainScope transientRoot
            then map snd (maps ?W1 (singleInstanceServices transientRoot)) else []))"
    by blast
  from ec have w2: "w2 = snd (endScope ?child ?W1)" by simp
  from ep have w4: "w4 = snd (endScope transientRoot ?W1)" by simp
  from dc have dc': "disposeCalls w2 = [(\<lparr>inst = Obj 0, h_onScopeEnd = noop\<rparr>, 0)]"
    by (simp add: defs)
  from dp have dp': "disposeCalls w4 = [(\<lparr>inst = Obj 0, h_onScopeEnd = noop\<rparr>, 0)]"
    by (simp add: defs)
  have "\<exists>w3. getService (Suc ?n) transientRoot ''T'' w2 = Some (Inr (Obj 1), w3) \<and>
      factoryCalls w3 = [(0, Context 0), (0, Context 0)]"
    unfolding w2 by (simp add: defs)
  then obtain w3 where g3: "getService (Suc ?n) transientRoot ''T'' w2 = Some (Inr (Obj 1), w3)"
    and f3: "factoryCalls w3 = [(0, Context 0), (0, Context 0)]" by blast
  have "\<exists>w5. getService (Suc ?n) ?child ''T'' w4 = Some (Inr (Obj 1), w5) \<and>
      factoryCalls w5 = [(0, Context 0), (0, Context 0)]"
    unfolding w4 by (simp add: defs)
  then obtain w5 where g5: "getService (Suc ?n) ?child ''T'' w4 = Some (Inr (Obj 1), w5)"
    and f5: "factoryCalls w5 = [(0, Context 0), (0, Context 0)]" by blast
  from cs0 g hit ec dc' g3 f3 ep dp' g5 f5 show ?thesis by blast
qed

text \<open>
  C5, as the claim states it, fails, in three ways. A child scope created on the parent's
  own context object returns, at its first \<open>getService\<close> for a transient key, the
  instance the parent holds, and the factory is not called again. So does a child scope
  created on a context object that has the parent's context object on its prototype
  chain and no field of its own: the constructor reads the parent's data through the
  chain and binds nothing. And when the factory returns the same value at every call
  (here the number 7), a child scope on a new context object, and the scope itself after
  \<open>endScope\<close>, call the factory again and still return the value the parent holds.
\<close>

theorem transient_child_on_same_context_counterexample:
  "(\<exists>w1 child w2.
      getService (Suc (Suc (Suc (Suc 0)))) transientRoot ''T'' transientWorld = Some (Inr (Obj 0), w1) \<and>
      createScope transientRoot 0 w1 = (child, w2) \<and>
      getService (Suc (Suc (Suc (Suc 0)))) child ''T'' w2 = Some (Inr (Obj 0), w2) \<and>
      factoryCalls w2 = [(0, Context 0)]) \<and>
   (\<exists>w1 child w2.
      getService (Suc (Suc (Suc (Suc 0)))) transientRoot ''T'' inheritingWorld = Some (Inr (Obj 0), w1) \<and>
      prototypeChain w1 1 = [0] \<and>
      createScope transientRoot 1 w1 = (child, w2) \<and> i_scope child = 1 \<and>
      dependencyInjectionContext w2 1 = None \<and>
      getService (Suc (Suc (Suc (Suc 0)))) child ''T'' w2 = Some (Inr (Obj 0), w2) \<and>
      factoryCalls w2 = [(0, Context 0)]) \<and>
   (\<exists>w1 child w2 w3 w4 w5.
      getService (Suc (Suc (Suc (Suc 0)))) constantRoot ''K'' constantWorld = Some (Inr (Num 7), w1) \<and>
      readSymbol w1 1 = None \<and>
      createScope constantRoot 1 w1 = (child, w2) \<and>
      getService (Suc (Suc (Suc (Suc 0)))) child ''K'' w2 = Some (Inr (Num 7), w3) \<and>
      factoryCalls w3 = [(0, Context 0), (0, Context 1)] \<and>
      endScope constantRoot w1 = (Inr (), w4) \<and>
      getService (Suc (Suc (Suc (Suc 0)))) constantRoot ''K'' w4 = Some (Inr (Num 7), w5) \<and>
      factoryCalls w5 = [(0, Context 0), (0, Context 0)])"
proof (intro conjI)
  show "\<exists>w1 child w2.
      getService (Suc (Suc (Suc (Suc 0)))) transientRoot ''T'' transientWorld = Some (Inr (Obj 0), w1) \<and>
      createScope transientRoot 0 w1 = (child, w2) \<and>
      getService (Suc (Suc (Suc (Suc 0)))) child ''T'' w2 = Some (Inr (Obj 0), w2) \<and>
      factoryCalls w2 = [(0, Context 0)]"
    by (simp add: createScope_eq new_Injector_def engine_defs transientRoot_simps transientWorld_eq
        transientRegistry_eq readServices_def writeServices_def)
  show "\<exists>w1 child w2.
      getService (Suc (Suc (Suc (Suc 0)))) transientRoot ''T'' inheritingWorld = Some (Inr (Obj 0), w1) \<and>
      prototypeChain w1 1 = [0] \<and>
      createScope transientRoot 1 w1 = (child, w2) \<and> i_scope child = 1 \<and>
      dependencyInjectionContext w2 1 = None \<and>
      getService (Suc (Suc (Suc (Suc 0)))) child ''T'' w2 = Some (Inr (Obj 0), w2) \<and>
      factoryCalls w2 = [(0, Context 0)]"
    by (simp add: createScope_eq new_Injector_def engine_defs transientRoot_simps transientWorld_eq
        inheritingWorld_def transientRegistry_eq readServices_def writeServices_def)
  show "\<exists>w1 child w2 w3 w4 w5.
      getService (Suc (Suc (Suc (Suc 0)))) constantRoot ''K'' constantWorld = Some (Inr (Num 7), w1) \<and>
      readSymbol w1 1 = None \<and>
      createScope constantRoot 1 w1 = (child, w2) \<and>
      getService (Suc (Suc (Suc (Suc 0)))) child ''K'' w2 = Some (Inr (Num 7), w3) \<and>
      factoryCalls w3 = [(0, Context 0), (0, Context 1)] \<and>
      endScope constantRoot w1 = (Inr (), w4) \<and>
      getService (Suc (Suc (Suc (Suc 0)))) constantRoot ''K'' w4 = Some (Inr (Num 7), w5) \<and>
      factoryCalls w5 = [(0, Context 0), (0, Context 0)]"
    by (simp add: createScope_eq new_Injector_def engine_defs constantRoot_simps constantWorld_eq
        constantRegistry_eq readServices_def writeServices_def)
qed

text \<open>
  C5, amended. For a transient key resolved on a scope: a second \<open>getService\<close> on the same
  scope returns the same instance and leaves the heap untouched. A child scope created on
  a context object that reads no data under the symbol, its own or through its prototype
  chain, misses at its first \<open>getService\<close> for the key: the call is a call of the
  factory, on the child's context, followed by the \<open>set\<close>, so it returns when the
  factory does, and the value returned is the product of that call. When the factory
  constructs its product, that value is an object allocated during the call, and so a
  different instance than the parent's, which existed before (\<open>allocated\<close>: an object
  of the heap has an address below the next free one, as the parent's instance has when
  the parent's call created it with such a factory). The same holds on the scope itself
  after an \<open>endScope\<close> that has run to its end, which it does when no tracked disposer
  throws.
\<close>

theorem transient_per_context:
  assumes reg: "map_of (registry this) key = Some cur" and sc: "scope cur = Transient"
    and g: "getService (Suc m) this key w = Some (Inr v, w1)"
  shows "getService (Suc n) this key w1 = Some (Inr v, w1) \<and>
     (\<forall>c d. readSymbol w (i_scope this) = Some (c, d) \<and>
        findService (serviceKeys (registry this) cur) (scopedServices d) = None \<and>
        constructs (body (factory cur) (Context (i_scope this))) \<longrightarrow>
        allocated w1 v) \<and>
     (\<forall>newScope child w2.
        readSymbol w1 newScope = None \<and>
        createScope this newScope w1 = (child, w2) \<longrightarrow>
        getService (Suc n) child key w2 =
          (case createInstance n child cur w2 of
             None \<Rightarrow> None
           | Some (Inl e, w'') \<Rightarrow> Some (Inl e, w'')
           | Some (Inr service, w'') \<Rightarrow>
               Some (Inr (inst service),
                 writeServices (ScopedServices newScope)
                   (Map_set (readServices (ScopedServices newScope) w'')
                      (first (serviceKeys (registry this) cur)) service) w'')) \<and>
        (\<forall>v2 w3. getService (Suc n) child key w2 = Some (Inr v2, w3) \<longrightarrow>
           (\<exists>calls. factoryCalls w3 =
              factoryCalls w1 @ (fref (factory cur), Context newScope) # calls) \<and>
           (constructs (body (factory cur) (Context newScope)) \<longrightarrow>
              (\<exists>a. v2 = Obj a \<and> nextObj w1 \<le> a) \<and> (allocated w1 v \<longrightarrow> v2 \<noteq> v)))) \<and>
     (\<exists>holder d1. readSymbol w1 (i_scope this) = Some (holder, d1) \<and>
        ((\<forall>h \<in> set (servicesToDispose this d1 w1). h_onScopeEnd h (inst h) (i_scope this) = None) \<longrightarrow>
         (\<exists>w2. endScope this w1 = (Inr (), w2)))) \<and>
     (\<forall>w2.
        endScope this w1 = (Inr (), w2) \<longrightarrow>
        getService (Suc n) this key w2 =
          (case createInstance n this cur w2 of
             None \<Rightarrow> None
           | Some (Inl e, w'') \<Rightarrow> Some (Inl e, w'')
           | Some (Inr service, w'') \<Rightarrow>
               Some (Inr (inst service),
                 writeServices (ScopedServices (i_scope this))
                   (Map_set (readServices (ScopedServices (i_scope this)) w'')
                      (first (serviceKeys (registry this) cur)) service) w'')) \<and>
        (\<forall>v2 w3. getService (Suc n) this key w2 = Some (Inr v2, w3) \<longrightarrow>
           (\<exists>calls. factoryCalls w3 =
              factoryCalls w1 @ (fref (factory cur), Context (i_scope this)) # calls) \<and>
           (constructs (body (factory cur) (Context (i_scope this))) \<longrightarrow>
              (\<exists>a. v2 = Obj a \<and> nextObj w1 \<le> a) \<and> (allocated w1 v \<longrightarrow> v2 \<noteq> v))))"
proof -
  from getService_Transient_cached [OF reg sc g] obtain c1 d1 h where
    d1: "readSymbol w1 (i_scope this) = Some (c1, d1)"
    and "findService (serviceKeys (registry this) cur) (scopedServices d1) = Some h" "inst h = v"
    by blast
  with getService_Transient_hit [OF reg sc, of w1 c1 d1 h n]
  have same: "getService (Suc n) this key w1 = Some (Inr v, w1)" by simp
  have own: "allocated w1 v"
    if "readSymbol w (i_scope this) = Some (c, d)"
      "findService (serviceKeys (registry this) cur) (scopedServices d) = None"
      "constructs (body (factory cur) (Context (i_scope this)))"
    for c d
    using getService_Transient_created [OF reg sc that(1,2) g] that(3)
    by (auto simp: allocated_def)
  have created: "getService (Suc n) that key w2 =
          (case createInstance n that cur w2 of
             None \<Rightarrow> None
           | Some (Inl e, w'') \<Rightarrow> Some (Inl e, w'')
           | Some (Inr service, w'') \<Rightarrow>
               Some (Inr (inst service),
                 writeServices (ScopedServices (i_scope that))
                   (Map_set (readServices (ScopedServices (i_scope that)) w'')
                      (first (serviceKeys (registry this) cur)) service) w'')) \<and>
        (\<forall>v2 w3. getService (Suc n) that key w2 = Some (Inr v2, w3) \<longrightarrow>
           (\<exists>calls. factoryCalls w3 =
              factoryCalls w1 @ (fref (factory cur), Context (i_scope that)) # calls) \<and>
           (constructs (body (factory cur) (Context (i_scope that))) \<longrightarrow>
              (\<exists>a. v2 = Obj a \<and> nextObj w1 \<le> a) \<and> (allocated w1 v \<longrightarrow> v2 \<noteq> v)))"
    if regt: "registry that = registry this"
      and data: "readSymbol w2 (i_scope that) = Some (i_scope that, createDependencyData)"
      and heap: "factoryCalls w2 = factoryCalls w1" "nextObj w2 = nextObj w1"
    for that :: Injector and w2
  proof (intro conjI allI impI)
    from reg regt have regt': "map_of (registry that) key = Some cur" by simp
    have miss: "findService (serviceKeys (registry that) cur) (scopedServices createDependencyData) = None"
      by (simp add: createDependencyData_def findService_empty)
    from getService_Transient_miss [OF regt' sc data miss, of n, unfolded regt]
    show "getService (Suc n) that key w2 =
          (case createInstance n that cur w2 of
             None \<Rightarrow> None
           | Some (Inl e, w'') \<Rightarrow> Some (Inl e, w'')
           | Some (Inr service, w'') \<Rightarrow>
               Some (Inr (inst service),
                 writeServices (ScopedServices (i_scope that))
                   (Map_set (readServices (ScopedServices (i_scope that)) w'')
                      (first (serviceKeys (registry this) cur)) service) w''))" .
    fix v2 w3
    assume g2: "getService (Suc n) that key w2 = Some (Inr v2, w3)"
    note c = getService_Transient_created [OF regt' sc data miss g2, unfolded heap]
    from c show "\<exists>calls. factoryCalls w3 =
              factoryCalls w1 @ (fref (factory cur), Context (i_scope that)) # calls"
      by blast
    assume "constructs (body (factory cur) (Context (i_scope that)))"
    with c obtain a where a: "v2 = Obj a" "nextObj w1 \<le> a" by blast
    then show "\<exists>a. v2 = Obj a \<and> nextObj w1 \<le> a" by blast
    assume "allocated w1 v"
    with a show "v2 \<noteq> v" by (auto simp: allocated_def)
  qed
  have childp: "getService (Suc n) child key w2 =
          (case createInstance n child cur w2 of
             None \<Rightarrow> None
           | Some (Inl e, w'') \<Rightarrow> Some (Inl e, w'')
           | Some (Inr service, w'') \<Rightarrow>
               Some (Inr (inst service),
                 writeServices (ScopedServices newScope)
                   (Map_set (readServices (ScopedServices newScope) w'')
                      (first (serviceKeys (registry this) cur)) service) w'')) \<and>
        (\<forall>v2 w3. getService (Suc n) child key w2 = Some (Inr v2, w3) \<longrightarrow>
           (\<exists>calls. factoryCalls w3 =
              factoryCalls w1 @ (fref (factory cur), Context newScope) # calls) \<and>
           (constructs (body (factory cur) (Context newScope)) \<longrightarrow>
              (\<exists>a. v2 = Obj a \<and> nextObj w1 \<le> a) \<and> (allocated w1 v \<longrightarrow> v2 \<noteq> v)))"
    if unbound: "readSymbol w1 newScope = None"
      and cs: "createScope this newScope w1 = (child, w2)"
    for newScope child w2
  proof -
    from cs have child: "child = fst (createScope this newScope w1)"
      and w2: "w2 = snd (createScope this newScope w1)" by simp_all
    have ctx: "i_scope child = newScope" and regc: "registry child = registry this"
      unfolding child by (simp_all add: createScope_fields)
    have "dependencyInjectionContext w2 newScope = Some createDependencyData"
      unfolding w2 by (rule createScope_heap(5) [OF unbound])
    then have data: "readSymbol w2 (i_scope child) = Some (i_scope child, createDependencyData)"
      unfolding ctx by (rule readSymbol_own_field)
    have heap: "factoryCalls w2 = factoryCalls w1" "nextObj w2 = nextObj w1"
      unfolding w2 by (simp_all add: createScope_heap)
    from created [OF regc data heap] show ?thesis unfolding ctx .
  qed
  have returns: "\<exists>w2. endScope this w1 = (Inr (), w2)"
    if "\<forall>h \<in> set (servicesToDispose this d1 w1). h_onScopeEnd h (inst h) (i_scope this) = None"
    using endScope_all [OF d1 that] by blast
  have endp: "getService (Suc n) this key w2 =
          (case createInstance n this cur w2 of
             None \<Rightarrow> None
           | Some (Inl e, w'') \<Rightarrow> Some (Inl e, w'')
           | Some (Inr service, w'') \<Rightarrow>
               Some (Inr (inst service),
                 writeServices (ScopedServices (i_scope this))
                   (Map_set (readServices (ScopedServices (i_scope this)) w'')
                      (first (serviceKeys (registry this) cur)) service) w'')) \<and>
        (\<forall>v2 w3. getService (Suc n) this key w2 = Some (Inr v2, w3) \<longrightarrow>
           (\<exists>calls. factoryCalls w3 =
              factoryCalls w1 @ (fref (factory cur), Context (i_scope this)) # calls) \<and>
           (constructs (body (factory cur) (Context (i_scope this))) \<longrightarrow>
              (\<exists>a. v2 = Obj a \<and> nextObj w1 \<le> a) \<and> (allocated w1 v \<longrightarrow> v2 \<noteq> v)))"
    if e: "endScope this w1 = (Inr (), w2)" for w2
  proof -
    from endScope_returns [OF e] obtain c d where
      w2: "w2 = w1\<lparr>disposeCalls := disposeCalls w1 @
                   map (\<lambda>h. (h, i_scope this)) (servicesToDispose this d w1),
                 dependencyInjectionContext :=
                   (dependencyInjectionContext w1)(i_scope this \<mapsto> createDependencyData)\<rparr>"
      by blast
    from w2 have "dependencyInjectionContext w2 (i_scope this) = Some createDependencyData"
      by simp
    then have data: "readSymbol w2 (i_scope this) = Some (i_scope this, createDependencyData)"
      by (rule readSymbol_own_field)
    from w2 have heap: "factoryCalls w2 = factoryCalls w1" "nextObj w2 = nextObj w1" by simp_all
    from created [OF refl data heap] show ?thesis .
  qed
  from same own childp d1 returns endp show ?thesis by blast
qed

theorem transient_per_context_witness:
  "getService (Suc (Suc (Suc (Suc 0)))) transientRoot ''T'' transientWorld =
     Some (Inr (Obj 0), heapAfter (Suc (Suc (Suc (Suc 0)))) transientRoot ''T'' transientWorld) \<and>
   getService (Suc (Suc (Suc (Suc 0)))) transientRoot ''T''
     (heapAfter (Suc (Suc (Suc (Suc 0)))) transientRoot ''T'' transientWorld) =
     Some (Inr (Obj 0), heapAfter (Suc (Suc (Suc (Suc 0)))) transientRoot ''T'' transientWorld) \<and>
   (\<exists>child w2 v2 w3.
      createScope transientRoot 1
        (heapAfter (Suc (Suc (Suc (Suc 0)))) transientRoot ''T'' transientWorld) = (child, w2) \<and>
      getService (Suc (Suc (Suc (Suc 0)))) child ''T'' w2 = Some (Inr v2, w3) \<and>
      v2 = Obj 1 \<and> v2 \<noteq> Obj 0 \<and>
      factoryCalls w3 = [(0, Context 0), (0, Context 1)]) \<and>
   (\<exists>w2 v2 w3.
      endScope transientRoot
        (heapAfter (Suc (Suc (Suc (Suc 0)))) transientRoot ''T'' transientWorld) = (Inr (), w2) \<and>
      getService (Suc (Suc (Suc (Suc 0)))) transientRoot ''T'' w2 = Some (Inr v2, w3) \<and>
      v2 = Obj 1 \<and> v2 \<noteq> Obj 0 \<and>
      factoryCalls w3 = [(0, Context 0), (0, Context 0)]) \<and>
   allocated (heapAfter (Suc (Suc (Suc (Suc 0)))) transientRoot ''T'' transientWorld) (Obj 0)"
proof -
  let ?n = "Suc (Suc (Suc 0))"
  let ?W1 = "heapAfter (Suc ?n) transientRoot ''T'' transientWorld"
  let ?cur = "\<lparr>dref = 0, scope = Transient,
               factory = FunctionConfig 0 (\<lambda>_. construct []), onScopeEnd = noop\<rparr>"
  let ?d1 = "\<lparr>scopedServices = [(Some ''T'', \<lparr>inst = Obj 0, h_onScopeEnd = noop\<rparr>)],
              onDemandServices = []\<rparr>"
  note defs = createScope_eq new_Injector_def engine_defs transientRoot_simps transientWorld_eq
      transientRegistry_eq readServices_def writeServices_def
  have reg: "map_of (registry transientRoot) ''T'' = Some ?cur"
    by (simp add: transientRoot_simps transientRegistry_eq)
  have sc: "scope ?cur = Transient" by simp
  have g: "getService (Suc ?n) transientRoot ''T'' transientWorld = Some (Inr (Obj 0), ?W1)"
    by (simp add: defs)
  note th = transient_per_context [OF reg sc g, of ?n]
  from th have same: "getService (Suc ?n) transientRoot ''T'' ?W1 = Some (Inr (Obj 0), ?W1)"
    by blast
  have con: "constructs (body (factory ?cur) (Context c))" for c
    using constructs_construct [of "[]"] by simp
  have rs0: "readSymbol transientWorld (i_scope transientRoot) = Some (0, createDependencyData)"
    by (simp add: transientWorld_eq transientRoot_simps readSymbol_def)
  have miss0: "findService (serviceKeys (registry transientRoot) ?cur)
      (scopedServices createDependencyData) = None"
    by (simp add: createDependencyData_def findService_empty)
  from th rs0 miss0 con [of "i_scope transientRoot"] have alloc: "allocated ?W1 (Obj 0)" by blast
  obtain child w2 where cs: "createScope transientRoot 1 ?W1 = (child, w2)"
    by (cases "createScope transientRoot 1 ?W1")
  then have child: "child = fst (createScope transientRoot 1 ?W1)"
    and w2: "w2 = snd (createScope transientRoot 1 ?W1)" by simp_all
  have unbound: "readSymbol ?W1 1 = None" by (simp add: defs)
  have "\<exists>w3. getService (Suc ?n) child ''T'' w2 = Some (Inr (Obj 1), w3) \<and>
      factoryCalls w3 = [(0, Context 0), (0, Context 1)]"
    unfolding child w2 by (simp add: defs)
  then obtain w3 where g2: "getService (Suc ?n) child ''T'' w2 = Some (Inr (Obj 1), w3)"
    and calls: "factoryCalls w3 = [(0, Context 0), (0, Context 1)]" by blast
  from th unbound cs g2 con [of 1] alloc have new: "Obj 1 \<noteq> Obj 0" by blast
  have d1: "readSymbol ?W1 (i_scope transientRoot) = Some (0, ?d1)" by (simp add: defs)
  have nothrow: "\<forall>h \<in> set (servicesToDispose transientRoot ?d1 ?W1).
      h_onScopeEnd h (inst h) (i_scope transientRoot) = None"
    by (simp add: defs)
  from th d1 nothrow obtain w4 where e: "endScope transientRoot ?W1 = (Inr (), w4)" by auto
  then have w4: "w4 = snd (endScope transientRoot ?W1)" by simp
  have "\<exists>w5. getService (Suc ?n) transientRoot ''T'' w4 = Some (Inr (Obj 1), w5) \<and>
      factoryCalls w5 = [(0, Context 0), (0, Context 0)]"
    unfolding w4 by (simp add: defs)
  then obtain w5 where g4: "getService (Suc ?n) transientRoot ''T'' w4 = Some (Inr (Obj 1), w5)"
    and calls4: "factoryCalls w5 = [(0, Context 0), (0, Context 0)]" by blast
  from th e g4 con [of "i_scope transientRoot"] alloc have new4: "Obj 1 \<noteq> Obj 0" by blast
  from g same cs g2 calls new e g4 calls4 new4 alloc show ?thesis by blast
qed




text \<open>
  C7. For a registry holding the single service \<open>CircularService\<close>, registered by
  \<open>addType\<close> with itself as its only dependency (whatever its scope, disposer and
  addresses), \<open>validateRegistry\<close> returns, with any fuel from five on, exactly the one line
  \<open>Root Service with key CircularService has a circular dependency with CircularService.\<close>
  The pass starts with no key visited, the factory runs twice (as the root, and once more
  when the root resolves itself, which marks the key visited), and the second run's
  request is then reported and not followed.
\<close>

theorem validateRegistry_self_dependency:
  "validateRegistry (Suc (Suc (Suc (Suc (Suc n)))))
     (addType a fa (Key ''CircularService'') [''CircularService''] sc disp []) =
     Some (Inr [''Root Service with key CircularService has a circular dependency with CircularService.'']) \<and>
   (\<exists>st. validateEntry (Suc (Suc (Suc (Suc (Suc n)))))
            (''CircularService'',
             \<lparr>dref = a, scope = sc,
              factory = FunctionConfig fa (\<lambda>_. construct [''CircularService'']), onScopeEnd = disp\<rparr>)
            (addType a fa (Key ''CircularService'') [''CircularService''] sc disp []) =
          Some (Inr [''Root Service with key CircularService has a circular dependency with CircularService.''],
                st) \<and>
      mockCalls st = [fa, fa] \<and> visitedServices st = {''CircularService''})"
  by (simp add: validateRegistry_def validateEntry_def addType_def add_def Map_set_def
      allEquivalentServices_def circular_line_def)



end
